theory Spec2Isabelle
  imports Complex_Main "HOL-Library.Product_Lexorder"
begin

section \<open>Common ground: errors, handlers, results\<close>

text \<open>
  The exceptions the two widgets can raise. \<open>TypeError\<close> and \<open>ValueError\<close> are raised
  by the source itself; \<open>ZeroDivisionError\<close> is what Python raises for a division by
  zero in \<open>tick_step\<close> and in \<open>IntSliderImpl.on_change\<close>.
\<close>

datatype error = TypeError | ValueError | ZeroDivisionError

text \<open>
  A user callback is identified by a number; every invocation of a user callback is
  appended (at the front) to the widget's log \<open>calls\<close>. The attribute \<open>_on_change\<close> holds
  \<open>wrapped_handler(self, handler)\<close>: for \<open>handler = None\<close> that is a callable doing
  nothing, modelled as \<open>None\<close>; otherwise it calls the user's handler, modelled as
  \<open>Some h\<close>. User callbacks are taken to do nothing but being recorded.
\<close>

type_synonym handler = nat

text \<open>
  A setter either returns normally with the new widget state (\<open>Inr\<close>), or raises,
  leaving the widget in the state reached when the exception was thrown (\<open>Inl\<close>).
\<close>

type_synonym 's outcome = "(error \<times> 's) + 's"

definition thn :: "'s outcome \<Rightarrow> ('s \<Rightarrow> 's outcome) \<Rightarrow> 's outcome" where
  "thn r f = (case r of Inl x \<Rightarrow> Inl x | Inr s \<Rightarrow> f s)"

fun state_of :: "'s outcome \<Rightarrow> 's" where
  "state_of (Inl (e, s)) = s"
| "state_of (Inr s) = s"

section \<open>Dates\<close>

text \<open>
  A \<open>datetime.date\<close> is (year, month, day); Python compares dates lexicographically
  in that order, which is the order of \<open>Product_Lexorder\<close> on triples.
\<close>

type_synonym date = "nat \<times> nat \<times> nat"

definition MIN_DATE :: date where
  "MIN_DATE = (1800, 1, 1)"

definition MAX_DATE :: date where
  "MAX_DATE = (8999, 12, 31)"

definition is_leap :: "nat \<Rightarrow> bool" where
  "is_leap y = (y mod 4 = 0 \<and> (y mod 100 \<noteq> 0 \<or> y mod 400 = 0))"

definition days_in_month :: "nat \<Rightarrow> nat \<Rightarrow> nat" where
  "days_in_month y m =
     (if m = 2 then (if is_leap y then 29 else 28)
      else if m = 4 \<or> m = 6 \<or> m = 9 \<or> m = 11 then 30 else 31)"

text \<open>The dates \<open>datetime.date\<close> can represent (years 1 to 9999).\<close>

fun valid_date :: "date \<Rightarrow> bool" where
  "valid_date (y, m, d) =
     (1 \<le> y \<and> y \<le> 9999 \<and> 1 \<le> m \<and> m \<le> 12 \<and> 1 \<le> d \<and> d \<le> days_in_month y m)"

definition digit_of :: "char \<Rightarrow> nat option" where
  "digit_of c = (let n = (of_char c :: nat) in
                 if 48 \<le> n \<and> n \<le> 57 then Some (n - 48) else None)"

fun number_of :: "nat \<Rightarrow> string \<Rightarrow> nat option" where
  "number_of acc [] = Some acc"
| "number_of acc (c # cs) =
     (case digit_of c of None \<Rightarrow> None | Some d \<Rightarrow> number_of (10 * acc + d) cs)"

text \<open>
  \<open>datetime.date.fromisoformat\<close> is the Python library's, not this repository's. It is
  modelled for the extended calendar format \<open>YYYY-MM-DD\<close>, the one format every Python
  version accepts; anything else, and any date that does not exist, is a \<open>ValueError\<close>.
\<close>

definition fromisoformat :: "string \<Rightarrow> error + date" where
  "fromisoformat s =
     (if length s = 10 \<and> s ! 4 = CHR ''-'' \<and> s ! 7 = CHR ''-'' then
        (case (number_of 0 (take 4 s), number_of 0 (take 2 (drop 5 s)),
               number_of 0 (drop 8 s)) of
           (Some y, Some m, Some d) \<Rightarrow>
             if valid_date (y, m, d) then Inr (y, m, d) else Inl ValueError
         | _ \<Rightarrow> Inl ValueError)
      else Inl ValueError)"

text \<open>
  The objects a caller can hand to the DateInput properties: \<open>None\<close>, a
  \<open>datetime.datetime\<close> (a date and a time of day), a \<open>datetime.date\<close>, a \<open>str\<close>, or an
  object of any other type.
\<close>

datatype pyobj =
    PyNone
  | PyDatetime date nat
  | PyDate date
  | PyStr string
  | PyOther

section \<open>DateInput\<close>

text \<open>
  Modelled from the spec: the DateInput backend (\<open>self._impl\<close>) is not part of the
  sources. By the Backend Contract it offers \<open>get_value/set_value\<close>,
  \<open>get_min_date/set_min_date\<close> and \<open>get_max_date/set_max_date\<close>, and the getters read
  back what was set. While a backend setter runs, the native widget may report a change
  to \<open>interface.on_change()\<close>; whether it does is left open, as a function
  \<open>date_notifies\<close> of the value currently shown and of the call.
\<close>

datatype date_call = SetValue date | SetMinDate date | SetMaxDate date

record dateinput =
  date_value :: date
  min_date :: date
  max_date :: date
  date_notifies :: "date \<Rightarrow> date_call \<Rightarrow> bool"
  date_on_change :: "handler option"
  date_calls :: "handler list"
  today :: date

text \<open>\<open>interface.on_change()\<close>: call the wrapped handler that is installed right now.\<close>

definition date_fire :: "dateinput \<Rightarrow> dateinput" where
  "date_fire s = (case date_on_change s of None \<Rightarrow> s
                  | Some h \<Rightarrow> s\<lparr>date_calls := h # date_calls s\<rparr>)"

definition date_native_event :: "date_call \<Rightarrow> dateinput \<Rightarrow> dateinput \<Rightarrow> dateinput" where
  "date_native_event c s s' = (if date_notifies s (date_value s) c then date_fire s' else s')"

definition set_value :: "date \<Rightarrow> dateinput \<Rightarrow> dateinput" where
  "set_value v s = date_native_event (SetValue v) s (s\<lparr>date_value := v\<rparr>)"

definition set_min_date :: "date \<Rightarrow> dateinput \<Rightarrow> dateinput" where
  "set_min_date v s = date_native_event (SetMinDate v) s (s\<lparr>min_date := v\<rparr>)"

definition set_max_date :: "date \<Rightarrow> dateinput \<Rightarrow> dateinput" where
  "set_max_date v s = date_native_event (SetMaxDate v) s (s\<lparr>max_date := v\<rparr>)"

text \<open>\<open>DateInput._convert_date\<close>; the first argument is \<open>datetime.date.today()\<close>.\<close>

definition convert_date :: "date \<Rightarrow> pyobj \<Rightarrow> bool \<Rightarrow> error + date" where
  "convert_date now v check_range =
     (case (case v of
              PyNone \<Rightarrow> Inr now
            | PyDatetime d t \<Rightarrow> Inr d
            | PyDate d \<Rightarrow> Inr d
            | PyStr str \<Rightarrow> fromisoformat str
            | PyOther \<Rightarrow> Inl TypeError) of
        Inl e \<Rightarrow> Inl e
      | Inr d \<Rightarrow>
          if check_range then
            (if d < MIN_DATE then Inl ValueError
             else if d > MAX_DATE then Inl ValueError
             else Inr d)
          else Inr d)"

text \<open>The setter of \<open>DateInput.value\<close>.\<close>

definition date_set_value :: "pyobj \<Rightarrow> dateinput \<Rightarrow> dateinput outcome" where
  "date_set_value v s =
     (case convert_date (today s) v False of
        Inl e \<Rightarrow> Inl (e, s)
      | Inr d \<Rightarrow>
          let d' = (if d < min_date s then min_date s
                    else if d > max_date s then max_date s
                    else d)
          in Inr (set_value d' s))"

text \<open>The setter of \<open>DateInput.min\<close>.\<close>

definition date_set_min :: "pyobj \<Rightarrow> dateinput \<Rightarrow> dateinput outcome" where
  "date_set_min v s =
     (case (if v = PyNone then Inr MIN_DATE else convert_date (today s) v True) of
        Inl e \<Rightarrow> Inl (e, s)
      | Inr m \<Rightarrow>
          let s1 = (if max_date s < m then set_max_date m s else s);
              s2 = set_min_date m s1
          in if date_value s2 < m then date_set_value (PyDate m) s2 else Inr s2)"

text \<open>The setter of \<open>DateInput.max\<close>.\<close>

definition date_set_max :: "pyobj \<Rightarrow> dateinput \<Rightarrow> dateinput outcome" where
  "date_set_max v s =
     (case (if v = PyNone then Inr MAX_DATE else convert_date (today s) v True) of
        Inl e \<Rightarrow> Inl (e, s)
      | Inr m \<Rightarrow>
          let s1 = (if min_date s > m then set_min_date m s else s);
              s2 = set_max_date m s1
          in if date_value s2 > m then date_set_value (PyDate m) s2 else Inr s2)"

text \<open>
  \<open>DateInput.__init__\<close>, run on the widget as \<open>Widget.__init__\<close> leaves it (the backend
  freshly created, showing whatever the native widget shows by default).
\<close>

definition DateInput_init ::
  "pyobj \<Rightarrow> pyobj \<Rightarrow> pyobj \<Rightarrow> handler option \<Rightarrow> dateinput \<Rightarrow> dateinput outcome" where
  "DateInput_init v mn mx h s0 =
     thn (date_set_min mn (s0\<lparr>date_on_change := None\<rparr>)) (\<lambda>s1.
     thn (date_set_max mx s1) (\<lambda>s2.
     thn (date_set_value v s2) (\<lambda>s3.
     Inr (s3\<lparr>date_on_change := h\<rparr>))))"

section \<open>Slider\<close>

text \<open>
  Python floats are modelled as real numbers: arithmetic is exact, and there is neither
  NaN nor infinity. \<open>round\<close> on a float gives the nearest integer, a tie going to the
  even neighbour. Comparisons and stores are those of the program; a value the program
  computes by arithmetic (a tick, a tick step, a tick value, a value read back from the
  native position) is the exact one here, and the program's is that value up to
  rounding. The last section of the model evaluates the rounding of a tick in binary64.
\<close>

definition py_round :: "real \<Rightarrow> int" where
  "py_round x =
     (let f = \<lfloor>x\<rfloor>; d = x - of_int f in
      if d < 1 / 2 then f
      else if d > 1 / 2 then f + 1
      else if even f then f else f + 1)"

text \<open>
  Modelled from the spec: the native integer control behind \<open>IntSliderImpl\<close> (its
  abstract methods \<open>get_int_value/set_int_value\<close>, \<open>get_int_max/set_int_max\<close> and
  \<open>set_ticks_visible\<close> are implemented per platform, outside the sources). The getters
  read back what was set. While one of its setters runs, the native control may deliver a
  change event, which the backend forwards to \<open>IntSliderImpl.on_change\<close>; whether it does
  is left open, as a function \<open>native_notifies\<close> of the current position and of the call.
\<close>

datatype native_call = SetIntValue int | SetIntMax int | SetTicksVisible bool

text \<open>
  The widget: the attributes of \<open>IntSliderImpl\<close> (\<open>value\<close>, \<open>min\<close>, \<open>max\<close>, \<open>discrete\<close>),
  the native control, and the attributes of \<open>Slider\<close> itself.
\<close>

record slider =
  impl_value :: real
  impl_min :: real
  impl_max :: real
  discrete :: bool
  int_value :: int
  int_max :: int
  ticks_visible :: bool
  native_notifies :: "int \<Rightarrow> native_call \<Rightarrow> bool"
  on_change :: "handler option"
  on_press :: "handler option"
  on_release :: "handler option"
  enabled :: bool
  calls :: "handler list"

subsection \<open>IntSliderImpl\<close>

text \<open>\<open>self.interface.on_change()\<close>: call the wrapped handler installed right now.\<close>

definition fire :: "slider \<Rightarrow> slider" where
  "fire s = (case on_change s of None \<Rightarrow> s | Some h \<Rightarrow> s\<lparr>calls := h # calls s\<rparr>)"

text \<open>\<open>IntSliderImpl.on_change\<close>; the division is Python's, which raises on zero.\<close>

definition impl_on_change :: "slider \<Rightarrow> slider outcome" where
  "impl_on_change s =
     (let span = impl_max s - impl_min s in
      if int_max s = 0 then Inl (ZeroDivisionError, s)
      else Inr (fire (s\<lparr>impl_value :=
                  impl_min s + (of_int (int_value s) / of_int (int_max s) * span)\<rparr>)))"

definition native_event :: "native_call \<Rightarrow> slider \<Rightarrow> slider \<Rightarrow> slider outcome" where
  "native_event c s s' =
     (if native_notifies s (int_value s) c then impl_on_change s' else Inr s')"

definition set_int_value :: "int \<Rightarrow> slider \<Rightarrow> slider outcome" where
  "set_int_value n s = native_event (SetIntValue n) s (s\<lparr>int_value := n\<rparr>)"

definition set_int_max :: "int \<Rightarrow> slider \<Rightarrow> slider outcome" where
  "set_int_max n s = native_event (SetIntMax n) s (s\<lparr>int_max := n\<rparr>)"

definition set_ticks_visible :: "bool \<Rightarrow> slider \<Rightarrow> slider outcome" where
  "set_ticks_visible b s = native_event (SetTicksVisible b) s (s\<lparr>ticks_visible := b\<rparr>)"

text \<open>The native position \<open>IntSliderImpl.set_value\<close> computes for a logical value.\<close>

definition int_position :: "real \<Rightarrow> slider \<Rightarrow> int" where
  "int_position v s =
     (let span = impl_max s - impl_min s in
      if span = 0 then 0
      else py_round ((v - impl_min s) / span * of_int (int_max s)))"

definition impl_set_value :: "real \<Rightarrow> slider \<Rightarrow> slider outcome" where
  "impl_set_value v s =
     thn (set_int_value (int_position v s) s) (\<lambda>s1. Inr (s1\<lparr>impl_value := v\<rparr>))"

definition impl_set_min :: "real \<Rightarrow> slider \<Rightarrow> slider outcome" where
  "impl_set_min v s = Inr (s\<lparr>impl_min := v\<rparr>)"

definition impl_set_max :: "real \<Rightarrow> slider \<Rightarrow> slider outcome" where
  "impl_set_max v s = Inr (s\<lparr>impl_max := v\<rparr>)"

definition get_tick_count :: "slider \<Rightarrow> int option" where
  "get_tick_count s = (if discrete s then Some (int_max s + 1) else None)"

definition CONTINUOUS_MAX :: int where
  "CONTINUOUS_MAX = 10000"

definition impl_set_tick_count :: "int option \<Rightarrow> slider \<Rightarrow> slider outcome" where
  "impl_set_tick_count tc s =
     thn (case tc of
            None \<Rightarrow> set_int_max CONTINUOUS_MAX (s\<lparr>discrete := False\<rparr>)
          | Some n \<Rightarrow> set_int_max (n - 1) (s\<lparr>discrete := True\<rparr>))
         (\<lambda>s1. set_ticks_visible (discrete s1) s1)"

subsection \<open>The Slider properties\<close>

text \<open>The getter of \<open>Slider.tick_step\<close>.\<close>

definition tick_step :: "slider \<Rightarrow> error + real option" where
  "tick_step s =
     (case get_tick_count s of
        None \<Rightarrow> Inr None
      | Some n \<Rightarrow>
          if impl_max s = impl_min s then Inr None
          else if n - 1 = 0 then Inl ZeroDivisionError
          else Inr (Some ((impl_max s - impl_min s) / of_int (n - 1))))"

text \<open>The getter of \<open>Slider.tick_value\<close>.\<close>

definition tick_value :: "slider \<Rightarrow> error + int option" where
  "tick_value s =
     (case get_tick_count s of
        None \<Rightarrow> Inr None
      | Some n \<Rightarrow>
          (case tick_step s of
             Inl e \<Rightarrow> Inl e
           | Inr None \<Rightarrow> Inr None
           | Inr (Some step) \<Rightarrow>
               Inr (Some (py_round ((impl_value s - impl_min s) / step) + 1))))"

text \<open>\<open>Slider._round_value\<close>.\<close>

definition round_value :: "real \<Rightarrow> slider \<Rightarrow> error + real" where
  "round_value v s =
     (case tick_step s of
        Inl e \<Rightarrow> Inl e
      | Inr None \<Rightarrow> Inr v
      | Inr (Some step) \<Rightarrow>
          Inr (impl_min s + of_int (py_round ((v - impl_min s) / step)) * step))"

text \<open>\<open>Slider._set_value\<close>.\<close>

definition set_value_raw :: "real \<Rightarrow> slider \<Rightarrow> slider outcome" where
  "set_value_raw v s =
     (case round_value v s of
        Inl e \<Rightarrow> Inl (e, s)
      | Inr r \<Rightarrow> impl_set_value r s)"

text \<open>
  \<open>Slider._programmatic_change\<close>, a context manager without \<open>try\<close>/\<open>finally\<close>: when the
  body raises, the code after \<open>yield\<close> does not run.
\<close>

definition programmatic_change ::
  "(real \<Rightarrow> slider \<Rightarrow> slider outcome) \<Rightarrow> slider \<Rightarrow> slider outcome" where
  "programmatic_change body s =
     (let old_value = impl_value s;
          saved = on_change s
      in case body old_value (s\<lparr>on_change := None\<rparr>) of
           Inl x \<Rightarrow> Inl x
         | Inr s1 \<Rightarrow>
             let s2 = s1\<lparr>on_change := saved\<rparr>
             in if impl_value s2 \<noteq> old_value then Inr (fire s2) else Inr s2)"

text \<open>The setter of \<open>Slider.value\<close>.\<close>

definition slider_set_value :: "real \<Rightarrow> slider \<Rightarrow> slider outcome" where
  "slider_set_value v s =
     (let v' = (if v < impl_min s then impl_min s
                else if v > impl_max s then impl_max s
                else v)
      in programmatic_change (\<lambda>old. set_value_raw v') s)"

text \<open>The setter of \<open>Slider.min\<close>.\<close>

definition slider_set_min :: "real \<Rightarrow> slider \<Rightarrow> slider outcome" where
  "slider_set_min v s =
     programmatic_change (\<lambda>old_value s0.
       let mn = v; mx = impl_max s0 in
       thn (if mx < mn then impl_set_max mn s0 else Inr s0) (\<lambda>s1.
       thn (impl_set_min mn s1) (\<lambda>s2.
       set_value_raw (max mn (min (if mx < mn then mn else mx) old_value)) s2))) s"

text \<open>The setter of \<open>Slider.max\<close>.\<close>

definition slider_set_max :: "real \<Rightarrow> slider \<Rightarrow> slider outcome" where
  "slider_set_max v s =
     programmatic_change (\<lambda>old_value s0.
       let mn = impl_min s0; mx = v in
       thn (if mn > mx then impl_set_min mx s0 else Inr s0) (\<lambda>s1.
       thn (impl_set_max mx s1) (\<lambda>s2.
       set_value_raw (max (if mn > mx then mx else mn) (min mx old_value)) s2))) s"

text \<open>The setter of \<open>Slider.tick_count\<close>.\<close>

definition slider_set_tick_count :: "int option \<Rightarrow> slider \<Rightarrow> slider outcome" where
  "slider_set_tick_count tc s =
     (if (case tc of None \<Rightarrow> False | Some n \<Rightarrow> n < 2) then Inl (ValueError, s)
      else programmatic_change (\<lambda>old_value s0.
             thn (impl_set_tick_count tc s0) (slider_set_value old_value)) s)"

text \<open>The setter of \<open>Slider.tick_value\<close>.\<close>

definition slider_set_tick_value :: "int option \<Rightarrow> slider \<Rightarrow> slider outcome" where
  "slider_set_tick_value tv s =
     (case get_tick_count s of
        None \<Rightarrow> (if tv \<noteq> None then Inl (ValueError, s) else Inr s)
      | Some n \<Rightarrow>
          (case tv of
             None \<Rightarrow> Inl (ValueError, s)
           | Some t \<Rightarrow>
               (case tick_step s of
                  Inl e \<Rightarrow> Inl (e, s)
                | Inr None \<Rightarrow> Inl (ValueError, s)
                | Inr (Some step) \<Rightarrow>
                    slider_set_value (impl_min s + of_int (t - 1) * step) s)))"

text \<open>
  The widget as \<open>Widget.__init__\<close> leaves it: \<open>IntSliderImpl.__init__\<close> has run, the
  native control shows its defaults (parameters here), and no handler is installed yet.
\<close>

definition fresh_slider :: "int \<Rightarrow> int \<Rightarrow> bool \<Rightarrow> (int \<Rightarrow> native_call \<Rightarrow> bool) \<Rightarrow> slider" where
  "fresh_slider pos nmax vis nf =
     \<lparr>impl_value = 0, impl_min = 0, impl_max = 1, discrete = False,
      int_value = pos, int_max = nmax, ticks_visible = vis, native_notifies = nf,
      on_change = None, on_press = None, on_release = None, enabled = True,
      calls = []\<rparr>"

text \<open>\<open>Slider.__init__\<close>.\<close>

definition Slider_init ::
  "real option \<Rightarrow> real \<Rightarrow> real \<Rightarrow> int option \<Rightarrow> handler option \<Rightarrow> handler option \<Rightarrow>
   handler option \<Rightarrow> bool \<Rightarrow> slider \<Rightarrow> slider outcome" where
  "Slider_init v mn mx tc h hp hr en s0 =
     thn (slider_set_min mn (s0\<lparr>on_change := None\<rparr>)) (\<lambda>s1.
     thn (slider_set_max mx s1) (\<lambda>s2.
     thn (slider_set_tick_count tc s2) (\<lambda>s3.
     thn (slider_set_value (case v of None \<Rightarrow> (mn + mx) / 2 | Some x \<Rightarrow> x) s3) (\<lambda>s4.
     Inr (s4\<lparr>on_change := h, on_press := hp, on_release := hr, enabled := en\<rparr>)))))"

text \<open>
  The user drags the native control to position \<open>p\<close>; the backend reports it through
  \<open>IntSliderImpl.on_change\<close>.
\<close>

definition user_move :: "int \<Rightarrow> slider \<Rightarrow> slider outcome" where
  "user_move p s = impl_on_change (s\<lparr>int_value := p\<rparr>)"

section \<open>The tick arithmetic in binary64\<close>

text \<open>
  A Python float is an IEEE 754 binary64 number, and every arithmetic operation returns
  the binary64 number nearest to the exact result, a tie going to the even mantissa.
  \<open>binary64\<close> is that rounding on the normal numbers (overflow, subnormal numbers and
  NaN are left out): \<open>scale\<close> finds the mantissa \<open>m\<close> in \<open>[2^52, 2^53)\<close> and the exponent
  \<open>e\<close> with \<open>\<bar>x\<bar> = m * 2^e\<close>, and the mantissa is rounded to an integer.
\<close>

fun scale :: "nat \<Rightarrow> real \<Rightarrow> int \<Rightarrow> real \<times> int" where
  "scale 0 x e = (x, e)"
| "scale (Suc n) x e =
     (if x < 2 ^ 52 then scale n (2 * x) (e - 1)
      else if 2 ^ 53 \<le> x then scale n (x / 2) (e + 1)
      else (x, e))"

definition binary64 :: "real \<Rightarrow> real" where
  "binary64 x =
     (if x = 0 then 0
      else case scale 2200 \<bar>x\<bar> 0 of (m, e) \<Rightarrow> sgn x * of_int (py_round m) * 2 powi e)"

text \<open>
  The getter of \<open>Slider.tick_step\<close> with its arithmetic in binary64: the difference is
  rounded, the integer \<open>tick_count - 1\<close> is converted to a float, and the quotient is
  rounded.
\<close>

definition tick_step_binary64 :: "slider \<Rightarrow> error + real option" where
  "tick_step_binary64 s =
     (case get_tick_count s of
        None \<Rightarrow> Inr None
      | Some n \<Rightarrow>
          if impl_max s = impl_min s then Inr None
          else if n - 1 = 0 then Inl ZeroDivisionError
          else Inr (Some (binary64 (binary64 (impl_max s - impl_min s)
                                      / binary64 (of_int (n - 1))))))"

text \<open>
  \<open>Slider._round_value\<close> with its arithmetic in binary64: each of the subtraction, the
  division, the conversion of the rounded integer, the multiplication and the addition
  is rounded; a step that is zero makes the division raise.
\<close>

definition round_value_binary64 :: "real \<Rightarrow> slider \<Rightarrow> error + real" where
  "round_value_binary64 v s =
     (case tick_step_binary64 s of
        Inl e \<Rightarrow> Inl e
      | Inr None \<Rightarrow> Inr v
      | Inr (Some step) \<Rightarrow>
          if step = 0 then Inl ZeroDivisionError
          else Inr (binary64 (impl_min s +
                      binary64 (binary64 (of_int (py_round
                                   (binary64 (binary64 (v - impl_min s) / step))))
                                * step))))"

section \<open>Notions used in the statements\<close>

subsection \<open>What a call leaves unchanged\<close>

text \<open>
  \<open>quiet s s'\<close>: the handlers and the native event policy are those of \<open>s\<close>, and if no
  user handler was installed in \<open>s\<close>, none has been called on the way to \<open>s'\<close>.
\<close>

definition quiet :: "slider \<Rightarrow> slider \<Rightarrow> bool" where
  "quiet s s' \<longleftrightarrow>
     native_notifies s' = native_notifies s \<and> on_change s' = on_change s \<and>
     on_press s' = on_press s \<and> on_release s' = on_release s \<and> enabled s' = enabled s \<and>
     (on_change s = None \<longrightarrow> calls s' = calls s)"

definition same_range :: "slider \<Rightarrow> slider \<Rightarrow> bool" where
  "same_range s s' \<longleftrightarrow> impl_min s' = impl_min s \<and> impl_max s' = impl_max s"

definition same_mode :: "slider \<Rightarrow> slider \<Rightarrow> bool" where
  "same_mode s s' \<longleftrightarrow>
     discrete s' = discrete s \<and> int_max s' = int_max s \<and> ticks_visible s' = ticks_visible s"

text \<open>The log of handler calls after one more call of the handler installed in \<open>s\<close>.\<close>

definition notified :: "slider \<Rightarrow> handler list" where
  "notified s = (case on_change s of None \<Rightarrow> calls s | Some h \<Rightarrow> h # calls s)"

text \<open>
  \<open>announced s s'\<close>: the handlers are those of \<open>s\<close>, and on the way to \<open>s'\<close> the
  \<open>on_change\<close> handler of \<open>s\<close> has been called once if the value differs, and not at all
  if it does not.
\<close>

definition announced :: "slider \<Rightarrow> slider \<Rightarrow> bool" where
  "announced s s' \<longleftrightarrow>
     native_notifies s' = native_notifies s \<and> on_change s' = on_change s \<and>
     on_press s' = on_press s \<and> on_release s' = on_release s \<and> enabled s' = enabled s \<and>
     calls s' = (if impl_value s' \<noteq> impl_value s then notified s else calls s)"

text \<open>
  \<open>silent s r\<close>: the outcome \<open>r\<close>, returned or raised, leaves no handler installed
  and the log of calls as it is in \<open>s\<close>.
\<close>

definition silent :: "slider \<Rightarrow> slider outcome \<Rightarrow> bool" where
  "silent s r \<longleftrightarrow> on_change (state_of r) = None \<and> calls (state_of r) = calls s"

text \<open>The same for a DateInput.\<close>

definition date_quiet :: "dateinput \<Rightarrow> dateinput \<Rightarrow> bool" where
  "date_quiet s s' \<longleftrightarrow>
     date_notifies s' = date_notifies s \<and> date_on_change s' = date_on_change s \<and>
     today s' = today s \<and> (date_on_change s = None \<longrightarrow> date_calls s' = date_calls s)"

subsection \<open>Clipping and rounding, as values\<close>

text \<open>The clipping at the head of the setter of \<open>Slider.value\<close>.\<close>

definition clipped :: "real \<Rightarrow> slider \<Rightarrow> real" where
  "clipped v s = (if v < impl_min s then impl_min s else if v > impl_max s then impl_max s else v)"

text \<open>
  The result of \<open>_round_value\<close> in a state whose native maximum is not zero (there
  \<open>tick_count - 1\<close> is \<open>int_max\<close>, and \<open>tick_step\<close> does not raise).
\<close>

definition rounded :: "real \<Rightarrow> slider \<Rightarrow> real" where
  "rounded v s =
     (if discrete s \<and> impl_max s \<noteq> impl_min s
      then impl_min s +
           of_int (py_round ((v - impl_min s) / ((impl_max s - impl_min s) / of_int (int_max s))))
             * ((impl_max s - impl_min s) / of_int (int_max s))
      else v)"

text \<open>The clipping at the head of the setter of \<open>DateInput.value\<close>.\<close>

definition date_clipped :: "date \<Rightarrow> dateinput \<Rightarrow> date" where
  "date_clipped d s = (if d < min_date s then min_date s else if d > max_date s then max_date s else d)"

text \<open>The date the setter of \<open>DateInput.min\<close> (of \<open>max\<close>) makes of its argument.\<close>

definition min_arg :: "pyobj \<Rightarrow> dateinput \<Rightarrow> error + date" where
  "min_arg v s = (if v = PyNone then Inr MIN_DATE else convert_date (today s) v True)"

definition max_arg :: "pyobj \<Rightarrow> dateinput \<Rightarrow> error + date" where
  "max_arg v s = (if v = PyNone then Inr MAX_DATE else convert_date (today s) v True)"

definition valid_tick_count :: "int option \<Rightarrow> bool" where
  "valid_tick_count tc = (case tc of None \<Rightarrow> True | Some n \<Rightarrow> 2 \<le> n)"

subsection \<open>The states a program can reach\<close>

text \<open>The calls a program can make on a Slider it holds.\<close>

datatype slider_call =
    Set_value real
  | Set_min real
  | Set_max real
  | Set_tick_count "int option"
  | Set_tick_value "int option"
  | Set_on_change "handler option"
  | Set_on_press "handler option"
  | Set_on_release "handler option"

fun slider_do :: "slider_call \<Rightarrow> slider \<Rightarrow> slider outcome" where
  "slider_do (Set_value v) s = slider_set_value v s"
| "slider_do (Set_min v) s = slider_set_min v s"
| "slider_do (Set_max v) s = slider_set_max v s"
| "slider_do (Set_tick_count tc) s = slider_set_tick_count tc s"
| "slider_do (Set_tick_value tv) s = slider_set_tick_value tv s"
| "slider_do (Set_on_change h) s = Inr (s\<lparr>on_change := h\<rparr>)"
| "slider_do (Set_on_press h) s = Inr (s\<lparr>on_press := h\<rparr>)"
| "slider_do (Set_on_release h) s = Inr (s\<lparr>on_release := h\<rparr>)"

text \<open>
  A Slider exists once \<open>__init__\<close> has returned. From then on the program calls its
  setters (a call that raises leaves the widget as it was when the exception was
  thrown), and the user moves the native control within \<open>[0, int_max]\<close>.
\<close>

inductive slider_reachable :: "slider \<Rightarrow> bool" where
  created: "Slider_init v mn mx tc h hp hr en (fresh_slider pos nmax vis nf) = Inr s
            \<Longrightarrow> slider_reachable s"
| called: "slider_reachable s \<Longrightarrow> slider_reachable (state_of (slider_do c s))"
| moved: "slider_reachable s \<Longrightarrow> 0 \<le> p \<Longrightarrow> p \<le> int_max s
          \<Longrightarrow> slider_reachable (state_of (user_move p s))"

text \<open>The calls a program can make on a DateInput it holds.\<close>

datatype dateinput_call =
    Set_date_value pyobj
  | Set_date_min pyobj
  | Set_date_max pyobj
  | Set_date_on_change "handler option"

fun dateinput_do :: "dateinput_call \<Rightarrow> dateinput \<Rightarrow> dateinput outcome" where
  "dateinput_do (Set_date_value v) s = date_set_value v s"
| "dateinput_do (Set_date_min v) s = date_set_min v s"
| "dateinput_do (Set_date_max v) s = date_set_max v s"
| "dateinput_do (Set_date_on_change h) s = Inr (s\<lparr>date_on_change := h\<rparr>)"


text \<open>The calls that change value, min, max or the ticks.\<close>

fun programmatic :: "slider_call \<Rightarrow> bool" where
  "programmatic (Set_value v) = True"
| "programmatic (Set_min v) = True"
| "programmatic (Set_max v) = True"
| "programmatic (Set_tick_count tc) = True"
| "programmatic (Set_tick_value tv) = True"
| "programmatic (Set_on_change h) = False"
| "programmatic (Set_on_press h) = False"
| "programmatic (Set_on_release h) = False"

subsection \<open>The invariant of a Slider\<close>

text \<open>
  In discrete mode the value sits on one of the \<open>int_max + 1\<close> ticks that divide
  \<open>[min, max]\<close> evenly.
\<close>

definition on_tick :: "slider \<Rightarrow> bool" where
  "on_tick s \<longleftrightarrow>
     (discrete s \<longrightarrow>
       (\<exists>k. 0 \<le> k \<and> k \<le> int_max s \<and>
            impl_value s =
              impl_min s + of_int k * ((impl_max s - impl_min s) / of_int (int_max s))))"

definition slider_inv :: "slider \<Rightarrow> bool" where
  "slider_inv s \<longleftrightarrow>
     impl_min s \<le> impl_value s \<and> impl_value s \<le> impl_max s \<and> 1 \<le> int_max s \<and> on_tick s"

definition dateinput_inv :: "dateinput \<Rightarrow> bool" where
  "dateinput_inv s \<longleftrightarrow> min_date s \<le> date_value s \<and> date_value s \<le> max_date s"

subsection \<open>Two concrete widgets\<close>

text \<open>
  A native control that starts at position 0 of 100 and reports every call, and a date
  backend that starts on 2024-02-29 and reports every call; both are used to run the
  theorems on concrete inputs.
\<close>

definition demo_native :: slider where
  "demo_native = fresh_slider 0 100 False (\<lambda>pos c. True)"

definition demo_backend :: dateinput where
  "demo_backend =
     \<lparr>date_value = (2024, 2, 29), min_date = (1900, 1, 1), max_date = (2100, 12, 31),
      date_notifies = (\<lambda>d c. True), date_on_change = None, date_calls = [],
      today = (2024, 2, 29)\<rparr>"

text \<open>\<open>Slider(min=3, max=3, tick_count=4, on_change=h1)\<close> on that native control.\<close>

definition demo_point :: slider where
  "demo_point =
     \<lparr>impl_value = 3, impl_min = 3, impl_max = 3, discrete = True, int_value = 0, int_max = 3,
      ticks_visible = True, native_notifies = (\<lambda>pos c. True), on_change = Some 1,
      on_press = None, on_release = None, enabled = True, calls = []\<rparr>"

text \<open>\<open>Slider(min=0, max=10, tick_count=3, on_change=h1)\<close> on that native control.\<close>

definition demo_slider :: slider where
  "demo_slider =
     \<lparr>impl_value = 5, impl_min = 0, impl_max = 10, discrete = True, int_value = 1, int_max = 2,
      ticks_visible = True, native_notifies = (\<lambda>pos c. True), on_change = Some 1,
      on_press = None, on_release = None, enabled = True, calls = []\<rparr>"

text \<open>
  \<open>Slider(min=0.0, max=0.9, tick_count=8, value=0.9)\<close> on that native control, at the
  point of \<open>__init__\<close> where min, max and tick_count are set and the value is about to
  be assigned; the float \<open>0.9\<close> is \<open>binary64 (9 / 10)\<close>.
\<close>

definition demo_eighths :: slider where
  "demo_eighths =
     \<lparr>impl_value = 0, impl_min = 0, impl_max = binary64 (9 / 10), discrete = True,
      int_value = 0, int_max = 7, ticks_visible = True, native_notifies = (\<lambda>pos c. True),
      on_change = None, on_press = None, on_release = None, enabled = True, calls = []\<rparr>"

text \<open>
  \<open>DateInput(min="1999-01-01", max="1999-12-31", value="2050-01-01", on_change=h1)\<close> on
  that date backend.
\<close>

definition demo_dateinput :: dateinput where
  "demo_dateinput =
     \<lparr>date_value = (1999, 12, 31), min_date = (1999, 1, 1), max_date = (1999, 12, 31),
      date_notifies = (\<lambda>d c. True), date_on_change = Some 1, date_calls = [],
      today = (2024, 2, 29)\<rparr>"

section \<open>Rounding\<close>

lemma py_round_of_int: "py_round (of_int k) = k"
  by (simp add: py_round_def)

lemma py_round_lower: "of_int a \<le> x \<Longrightarrow> a \<le> py_round x"
  unfolding py_round_def Let_def by (auto simp: le_floor_iff) linarith+

lemma py_round_upper: "x \<le> of_int b \<Longrightarrow> py_round x \<le> b"
  unfolding py_round_def Let_def
  by (auto simp: floor_le_iff)

section \<open>Sequencing\<close>


lemma thn_Inr: "thn r f = Inr s' \<longleftrightarrow> (\<exists>s1. r = Inr s1 \<and> f s1 = Inr s')"
  by (cases r) (simp_all add: thn_def)

lemma thn_simps [simp]: "thn (Inl x) f = Inl x" "thn (Inr s) f = f s"
  by (simp_all add: thn_def)

section \<open>What the backend calls change\<close>


lemma quiet_refl [simp]: "quiet s s"
  by (simp add: quiet_def)


lemma impl_on_change_Inr:
  "impl_on_change s = Inr s' \<Longrightarrow>
     int_max s \<noteq> 0 \<and> quiet s s' \<and> same_range s s' \<and> same_mode s s' \<and> int_value s' = int_value s \<and>
     impl_value s' = impl_min s + of_int (int_value s) / of_int (int_max s) * (impl_max s - impl_min s)"
  unfolding impl_on_change_def Let_def quiet_def same_range_def same_mode_def fire_def
  by (auto split: if_splits option.splits)

lemma native_event_Inr:
  "native_event c s0 s = Inr s' \<Longrightarrow>
     quiet s s' \<and> same_range s s' \<and> same_mode s s' \<and> int_value s' = int_value s"
  unfolding native_event_def
  by (auto split: if_splits dest: impl_on_change_Inr simp: same_range_def same_mode_def)

lemma native_event_ok: "int_max s \<noteq> 0 \<Longrightarrow> \<exists>s'. native_event c s0 s = Inr s'"
  unfolding native_event_def impl_on_change_def by (simp add: Let_def)


lemma impl_set_value_Inr:
  "impl_set_value v s = Inr s' \<Longrightarrow>
     impl_value s' = v \<and> int_value s' = int_position v s \<and>
     quiet s s' \<and> same_range s s' \<and> same_mode s s'"
  unfolding impl_set_value_def set_int_value_def thn_Inr
  by (auto dest!: native_event_Inr simp: quiet_def same_range_def same_mode_def)

lemma impl_set_value_ok: "int_max s \<noteq> 0 \<Longrightarrow> \<exists>s'. impl_set_value v s = Inr s'"
  unfolding impl_set_value_def set_int_value_def
  using native_event_ok[of "s\<lparr>int_value := int_position v s\<rparr>"]
  by (auto simp: thn_Inr)

lemma impl_set_tick_count_Inr:
  "impl_set_tick_count tc s = Inr s' \<Longrightarrow>
     discrete s' = (tc \<noteq> None) \<and>
     int_max s' = (case tc of None \<Rightarrow> CONTINUOUS_MAX | Some n \<Rightarrow> n - 1) \<and>
     int_value s' = int_value s \<and> quiet s s' \<and> same_range s s'"
  unfolding impl_set_tick_count_def set_int_max_def set_ticks_visible_def thn_Inr
  by (auto dest!: native_event_Inr simp: quiet_def same_range_def same_mode_def split: option.splits)

lemma impl_set_tick_count_ok:
  "(case tc of None \<Rightarrow> True | Some n \<Rightarrow> n \<noteq> 1) \<Longrightarrow> \<exists>s'. impl_set_tick_count tc s = Inr s'"
proof -
  assume tc: "case tc of None \<Rightarrow> True | Some n \<Rightarrow> n \<noteq> 1"
  define m where "m = (case tc of None \<Rightarrow> CONTINUOUS_MAX | Some n \<Rightarrow> n - 1)"
  define s0 where "s0 = s\<lparr>discrete := (tc \<noteq> None)\<rparr>"
  have m0: "m \<noteq> 0" using tc by (auto simp: m_def CONTINUOUS_MAX_def split: option.splits)
  have eq: "impl_set_tick_count tc s = thn (set_int_max m s0) (\<lambda>s1. set_ticks_visible (discrete s1) s1)"
    by (simp add: impl_set_tick_count_def m_def s0_def split: option.splits)
  obtain s1 where s1: "set_int_max m s0 = Inr s1"
    unfolding set_int_max_def using native_event_ok[of "s0\<lparr>int_max := m\<rparr>"] m0 by auto
  then have "int_max s1 = m"
    unfolding set_int_max_def by (auto dest!: native_event_Inr simp: same_mode_def)
  then obtain s2 where "set_ticks_visible (discrete s1) s1 = Inr s2"
    unfolding set_ticks_visible_def
    using native_event_ok[of "s1\<lparr>ticks_visible := discrete s1\<rparr>"] m0 by auto
  with s1 eq show ?thesis by simp
qed


lemma tick_step_cong: "same_range s s' \<Longrightarrow> same_mode s s' \<Longrightarrow> tick_step s' = tick_step s"
  by (simp add: tick_step_def get_tick_count_def same_mode_def same_range_def)

lemma round_value_cong: "same_range s s' \<Longrightarrow> same_mode s s' \<Longrightarrow> round_value v s' = round_value v s"
  unfolding round_value_def
  by (auto simp: tick_step_cong same_range_def split: sum.splits option.splits)

lemma int_position_cong: "same_range s s' \<Longrightarrow> same_mode s s' \<Longrightarrow> int_position v s' = int_position v s"
  by (simp add: int_position_def same_mode_def same_range_def)

lemma handler_update_frame [simp]:
  "same_range s (s\<lparr>on_change := h\<rparr>)" "same_mode s (s\<lparr>on_change := h\<rparr>)"
  "same_range (s\<lparr>on_change := h\<rparr>) s" "same_mode (s\<lparr>on_change := h\<rparr>) s"
  by (simp_all add: same_range_def same_mode_def)

lemma tick_step_ok:
  "int_max s \<noteq> 0 \<Longrightarrow>
   tick_step s = Inr (if discrete s \<and> impl_max s \<noteq> impl_min s
                      then Some ((impl_max s - impl_min s) / of_int (int_max s)) else None)"
  by (simp add: tick_step_def get_tick_count_def)

section \<open>What the setters of a Slider change\<close>


lemma round_value_ok: "int_max s \<noteq> 0 \<Longrightarrow> round_value v s = Inr (rounded v s)"
  by (simp add: round_value_def tick_step_ok rounded_def)

lemma set_value_raw_Inr:
  "set_value_raw v s = Inr s' \<Longrightarrow>
     round_value v s = Inr (impl_value s') \<and> int_value s' = int_position (impl_value s') s \<and>
     quiet s s' \<and> same_range s s' \<and> same_mode s s'"
  unfolding set_value_raw_def
  by (auto split: sum.splits dest!: impl_set_value_Inr)

lemma set_value_raw_ok:
  "int_max s \<noteq> 0 \<Longrightarrow> \<exists>s'. set_value_raw v s = Inr s'"
  unfolding set_value_raw_def using impl_set_value_ok[of s]
  by (simp add: round_value_ok)

lemma programmatic_change_Inr:
  "programmatic_change body s = Inr s' \<longleftrightarrow>
     (\<exists>s1. body (impl_value s) (s\<lparr>on_change := None\<rparr>) = Inr s1 \<and>
           s' = s1\<lparr>on_change := on_change s,
                   calls := (if impl_value s1 \<noteq> impl_value s
                             then (case on_change s of None \<Rightarrow> calls s1 | Some h \<Rightarrow> h # calls s1)
                             else calls s1)\<rparr>)"
  unfolding programmatic_change_def Let_def fire_def
  by (auto split: sum.splits option.splits)

lemma programmatic_change_D:
  assumes "programmatic_change body s = Inr s'"
  shows "\<exists>s1. body (impl_value s) (s\<lparr>on_change := None\<rparr>) = Inr s1 \<and>
              impl_value s' = impl_value s1 \<and> int_value s' = int_value s1 \<and>
              same_range s1 s' \<and> same_mode s1 s' \<and>
              (quiet (s\<lparr>on_change := None\<rparr>) s1 \<longrightarrow> announced s s')"
proof -
  from assms obtain s1 where b: "body (impl_value s) (s\<lparr>on_change := None\<rparr>) = Inr s1"
    and s': "s' = s1\<lparr>on_change := on_change s,
                   calls := (if impl_value s1 \<noteq> impl_value s
                             then (case on_change s of None \<Rightarrow> calls s1 | Some h \<Rightarrow> h # calls s1)
                             else calls s1)\<rparr>"
    unfolding programmatic_change_Inr by blast
  have "quiet (s\<lparr>on_change := None\<rparr>) s1 \<longrightarrow> announced s s'"
    unfolding s' by (auto simp: quiet_def announced_def notified_def split: option.splits)
  with b show ?thesis
    by (intro exI[of _ s1]) (simp add: s' same_range_def same_mode_def)
qed

lemma slider_set_value_Inr:
  assumes "slider_set_value v s = Inr s'"
  shows "round_value (clipped v s) s = Inr (impl_value s') \<and>
         int_value s' = int_position (impl_value s') s' \<and>
         announced s s' \<and> same_range s s' \<and> same_mode s s'"
proof -
  from assms have pc: "programmatic_change (\<lambda>old. set_value_raw (clipped v s)) s = Inr s'"
    by (simp add: slider_set_value_def clipped_def Let_def)
  from programmatic_change_D[OF pc]
  obtain s1 where b: "set_value_raw (clipped v s) (s\<lparr>on_change := None\<rparr>) = Inr s1"
    and a: "quiet (s\<lparr>on_change := None\<rparr>) s1 \<longrightarrow> announced s s'"
    and v: "impl_value s' = impl_value s1" "int_value s' = int_value s1"
    and f: "same_range s1 s'" "same_mode s1 s'"
    by blast
  note r = set_value_raw_Inr[OF b]
  from r have f1: "same_range s s1" "same_mode s s1"
    by (simp_all add: same_range_def same_mode_def)
  have f2: "same_range s s'" "same_mode s s'"
    using f f1 by (simp_all add: same_range_def same_mode_def)
  have "round_value (clipped v s) s = Inr (impl_value s')"
    using r v by (simp add: round_value_cong[of s "s\<lparr>on_change := None\<rparr>"])
  moreover have "int_value s' = int_position (impl_value s') s'"
    using r v f2 by (simp add: int_position_cong[of s "s\<lparr>on_change := None\<rparr>"] int_position_cong[of s s'])
  ultimately show ?thesis using a r f2 by simp
qed

lemma programmatic_change_ok:
  "\<exists>s1. body (impl_value s) (s\<lparr>on_change := None\<rparr>) = Inr s1 \<Longrightarrow> \<exists>s'. programmatic_change body s = Inr s'"
  unfolding programmatic_change_Inr by blast

lemma slider_set_value_ok: "int_max s \<noteq> 0 \<Longrightarrow> \<exists>s'. slider_set_value v s = Inr s'"
  unfolding slider_set_value_def Let_def
  by (rule programmatic_change_ok) (simp add: set_value_raw_ok)


lemma slider_set_min_Inr:
  assumes "slider_set_min m s = Inr s'"
  shows "impl_min s' = m \<and> impl_max s' = (if impl_max s < m then m else impl_max s) \<and>
         round_value (max m (min (impl_max s') (impl_value s))) s' = Inr (impl_value s') \<and>
         int_value s' = int_position (impl_value s') s' \<and>
         announced s s' \<and> same_mode s s'"
proof -
  define s2 where "s2 = (if impl_max s < m then s\<lparr>on_change := None, impl_max := m, impl_min := m\<rparr>
                          else s\<lparr>on_change := None, impl_min := m\<rparr>)"
  define x where "x = max m (min (if impl_max s < m then m else impl_max s) (impl_value s))"
  from programmatic_change_D[OF assms[unfolded slider_set_min_def]]
  obtain s1 where b: "set_value_raw x s2 = Inr s1"
    and a: "quiet (s\<lparr>on_change := None\<rparr>) s1 \<longrightarrow> announced s s'"
    and v: "impl_value s' = impl_value s1" "int_value s' = int_value s1"
    and f: "same_range s1 s'" "same_mode s1 s'"
    by (auto simp: s2_def x_def Let_def impl_set_max_def impl_set_min_def split: if_splits)
  note r = set_value_raw_Inr[OF b]
  have q: "quiet (s\<lparr>on_change := None\<rparr>) s1"
    using r by (auto simp: quiet_def s2_def split: if_splits)
  have f2: "same_range s2 s'" "same_mode s2 s'"
    using r f by (simp_all add: same_range_def same_mode_def)
  have mm: "impl_min s' = m" "impl_max s' = (if impl_max s < m then m else impl_max s)" "same_mode s s'"
    using f2 by (auto simp: same_range_def same_mode_def s2_def split: if_splits)
  have "round_value x s' = Inr (impl_value s')"
    using r v by (simp add: round_value_cong[OF f2])
  moreover have "int_value s' = int_position (impl_value s') s'"
    using r v by (simp add: int_position_cong[OF f2])
  ultimately show ?thesis using a q mm by (simp add: x_def)
qed

lemma slider_set_max_Inr:
  assumes "slider_set_max m s = Inr s'"
  shows "impl_max s' = m \<and> impl_min s' = (if impl_min s > m then m else impl_min s) \<and>
         round_value (max (impl_min s') (min m (impl_value s))) s' = Inr (impl_value s') \<and>
         int_value s' = int_position (impl_value s') s' \<and>
         announced s s' \<and> same_mode s s'"
proof -
  define s2 where "s2 = (if impl_min s > m then s\<lparr>on_change := None, impl_min := m, impl_max := m\<rparr>
                          else s\<lparr>on_change := None, impl_max := m\<rparr>)"
  define x where "x = max (if impl_min s > m then m else impl_min s) (min m (impl_value s))"
  from programmatic_change_D[OF assms[unfolded slider_set_max_def]]
  obtain s1 where b: "set_value_raw x s2 = Inr s1"
    and a: "quiet (s\<lparr>on_change := None\<rparr>) s1 \<longrightarrow> announced s s'"
    and v: "impl_value s' = impl_value s1" "int_value s' = int_value s1"
    and f: "same_range s1 s'" "same_mode s1 s'"
    by (auto simp: s2_def x_def Let_def impl_set_max_def impl_set_min_def split: if_splits)
  note r = set_value_raw_Inr[OF b]
  have q: "quiet (s\<lparr>on_change := None\<rparr>) s1"
    using r by (auto simp: quiet_def s2_def split: if_splits)
  have f2: "same_range s2 s'" "same_mode s2 s'"
    using r f by (simp_all add: same_range_def same_mode_def)
  have mm: "impl_max s' = m" "impl_min s' = (if impl_min s > m then m else impl_min s)" "same_mode s s'"
    using f2 by (auto simp: same_range_def same_mode_def s2_def split: if_splits)
  have "round_value x s' = Inr (impl_value s')"
    using r v by (simp add: round_value_cong[OF f2])
  moreover have "int_value s' = int_position (impl_value s') s'"
    using r v by (simp add: int_position_cong[OF f2])
  ultimately show ?thesis using a q mm by (simp add: x_def)
qed

lemma slider_set_min_ok: "int_max s \<noteq> 0 \<Longrightarrow> \<exists>s'. slider_set_min m s = Inr s'"
  unfolding slider_set_min_def
  by (rule programmatic_change_ok)
     (simp add: Let_def impl_set_max_def impl_set_min_def set_value_raw_ok)

lemma slider_set_max_ok: "int_max s \<noteq> 0 \<Longrightarrow> \<exists>s'. slider_set_max m s = Inr s'"
  unfolding slider_set_max_def
  by (rule programmatic_change_ok)
     (simp add: Let_def impl_set_max_def impl_set_min_def set_value_raw_ok)

lemma slider_set_tick_count_invalid:
  "\<not> valid_tick_count tc \<Longrightarrow> slider_set_tick_count tc s = Inl (ValueError, s)"
  by (auto simp: slider_set_tick_count_def valid_tick_count_def split: option.splits)

lemma slider_set_tick_count_Inr:
  assumes "slider_set_tick_count tc s = Inr s'"
  shows "valid_tick_count tc \<and> discrete s' = (tc \<noteq> None) \<and>
         int_max s' = (case tc of None \<Rightarrow> CONTINUOUS_MAX | Some n \<Rightarrow> n - 1) \<and>
         same_range s s' \<and>
         round_value (clipped (impl_value s) s) s' = Inr (impl_value s') \<and>
         int_value s' = int_position (impl_value s') s' \<and>
         announced s s'"
proof -
  have valid: "valid_tick_count tc"
    using assms slider_set_tick_count_invalid[of tc s] by (cases "valid_tick_count tc") auto
  then have "programmatic_change (\<lambda>old_value s0.
             thn (impl_set_tick_count tc s0) (slider_set_value old_value)) s = Inr s'"
    using assms by (auto simp: slider_set_tick_count_def valid_tick_count_def split: option.splits)
  from programmatic_change_D[OF this]
  obtain s1 s2 where b1: "impl_set_tick_count tc (s\<lparr>on_change := None\<rparr>) = Inr s1"
    and b2: "slider_set_value (impl_value s) s1 = Inr s2"
    and a: "quiet (s\<lparr>on_change := None\<rparr>) s2 \<longrightarrow> announced s s'"
    and v: "impl_value s' = impl_value s2" "int_value s' = int_value s2"
    and f: "same_range s2 s'" "same_mode s2 s'"
    by (auto simp: thn_Inr)
  note r1 = impl_set_tick_count_Inr[OF b1]
  note r2 = slider_set_value_Inr[OF b2]
  have h1: "on_change s1 = None" "calls s1 = calls s"
    using r1 by (simp_all add: quiet_def)
  have q: "quiet (s\<lparr>on_change := None\<rparr>) s2"
    using r1 r2 h1 by (auto simp: quiet_def announced_def notified_def)
  have f1: "same_range s s1" using r1 by (simp add: same_range_def)
  have f2: "same_range s1 s'" "same_mode s1 s'"
    using r2 f by (simp_all add: same_range_def same_mode_def)
  have c: "clipped (impl_value s) s1 = clipped (impl_value s) s"
    using f1 by (simp add: clipped_def same_range_def)
  have "round_value (clipped (impl_value s) s) s' = Inr (impl_value s')"
    using r2 v c by (simp add: round_value_cong[OF f2])
  moreover have "int_value s' = int_position (impl_value s') s'"
    using r2 v f by (simp add: int_position_cong[OF f])
  moreover have "discrete s' = (tc \<noteq> None)" "int_max s' = (case tc of None \<Rightarrow> CONTINUOUS_MAX | Some n \<Rightarrow> n - 1)"
    using r1 f2 by (simp_all add: same_mode_def)
  moreover have "same_range s s'" using f1 f2 by (simp add: same_range_def)
  ultimately show ?thesis using valid a q by simp
qed

lemma slider_set_tick_count_ok:
  assumes "valid_tick_count tc"
  shows "\<exists>s'. slider_set_tick_count tc s = Inr s'"
proof -
  have ne: "case tc of None \<Rightarrow> True | Some n \<Rightarrow> n \<noteq> 1"
    using assms by (auto simp: valid_tick_count_def split: option.splits)
  obtain s1 where b1: "impl_set_tick_count tc (s\<lparr>on_change := None\<rparr>) = Inr s1"
    using impl_set_tick_count_ok[OF ne] by blast
  have "int_max s1 \<noteq> 0"
    using impl_set_tick_count_Inr[OF b1] assms
    by (auto simp: valid_tick_count_def CONTINUOUS_MAX_def split: option.splits)
  then obtain s2 where "slider_set_value (impl_value s) s1 = Inr s2"
    using slider_set_value_ok by blast
  with b1 have "\<exists>s'. programmatic_change (\<lambda>old_value s0.
             thn (impl_set_tick_count tc s0) (slider_set_value old_value)) s = Inr s'"
    by (intro programmatic_change_ok) simp
  then show ?thesis
    using assms by (auto simp: slider_set_tick_count_def valid_tick_count_def split: option.splits)
qed

section \<open>The invariant of a Slider is kept\<close>

lemma rounded_on_tick:
  assumes m: "1 \<le> int_max s" and lo: "impl_min s \<le> v" and hi: "v \<le> impl_max s"
    and d: "discrete s"
  shows "\<exists>k. 0 \<le> k \<and> k \<le> int_max s \<and>
             rounded v s = impl_min s + of_int k * ((impl_max s - impl_min s) / of_int (int_max s))"
proof (cases "impl_max s = impl_min s")
  case True
  then have "rounded v s = impl_min s" using lo hi by (simp add: rounded_def)
  then show ?thesis using m True by (intro exI[of _ 0]) simp
next
  case False
  define step where "step = (impl_max s - impl_min s) / of_int (int_max s)"
  define x where "x = (v - impl_min s) / step"
  have span: "0 < impl_max s - impl_min s" using False lo hi by simp
  have step: "0 < step" using span m by (simp add: step_def)
  have x0: "of_int 0 \<le> x" using lo step by (simp add: x_def)
  have "v - impl_min s \<le> of_int (int_max s) * step"
    using hi m by (simp add: step_def)
  then have x1: "x \<le> of_int (int_max s)"
    using step by (simp add: x_def pos_divide_le_eq)
  have "rounded v s = impl_min s + of_int (py_round x) * step"
    using False d by (simp add: rounded_def x_def step_def)
  then show ?thesis
    using py_round_lower[OF x0] py_round_upper[OF x1]
    by (intro exI[of _ "py_round x"]) (simp add: step_def)
qed

lemma tick_in_range:
  assumes m: "1 \<le> int_max s" and r: "impl_min s \<le> impl_max s"
    and k: "0 \<le> k" "k \<le> int_max s"
  shows "impl_min s \<le> impl_min s + of_int k * ((impl_max s - impl_min s) / of_int (int_max s))"
    and "impl_min s + of_int k * ((impl_max s - impl_min s) / of_int (int_max s)) \<le> impl_max s"
proof -
  define step where "step = (impl_max s - impl_min s) / of_int (int_max s)"
  have step: "0 \<le> step" using r m by (simp add: step_def)
  have full: "of_int (int_max s) * step = impl_max s - impl_min s"
    using m by (simp add: step_def)
  have "0 \<le> of_int k * step" using k step by simp
  then show "impl_min s \<le> impl_min s + of_int k * ((impl_max s - impl_min s) / of_int (int_max s))"
    by (simp add: step_def)
  have "of_int k * step \<le> of_int (int_max s) * step"
    using k step by (intro mult_right_mono) simp_all
  then show "impl_min s + of_int k * ((impl_max s - impl_min s) / of_int (int_max s)) \<le> impl_max s"
    using full by (simp add: step_def)
qed

lemma slider_inv_rounded:
  assumes r: "round_value v s = Inr (impl_value s)" and m: "1 \<le> int_max s"
    and lo: "impl_min s \<le> v" and hi: "v \<le> impl_max s"
  shows "slider_inv s"
proof -
  have v: "impl_value s = rounded v s"
    using r m round_value_ok[of s v] by simp
  show ?thesis
  proof (cases "discrete s")
    case False
    then show ?thesis using v lo hi m by (simp add: slider_inv_def on_tick_def rounded_def)
  next
    case True
    from rounded_on_tick[OF m lo hi True] obtain k where k: "0 \<le> k" "k \<le> int_max s"
      and e: "rounded v s = impl_min s + of_int k * ((impl_max s - impl_min s) / of_int (int_max s))"
      by blast
    have "impl_min s \<le> impl_max s" using lo hi by simp
    from tick_in_range[OF m this k] show ?thesis
      using v e k m True unfolding slider_inv_def on_tick_def by auto
  qed
qed

lemma clipped_in_range:
  "impl_min s \<le> impl_max s \<Longrightarrow> impl_min s \<le> clipped v s \<and> clipped v s \<le> impl_max s"
  by (simp add: clipped_def)

lemma clipped_cong: "same_range s s' \<Longrightarrow> clipped v s' = clipped v s"
  by (simp add: clipped_def same_range_def)

lemma slider_set_value_inv:
  assumes "slider_set_value v s = Inr s'" and "1 \<le> int_max s" and "impl_min s \<le> impl_max s"
  shows "slider_inv s'"
proof -
  note r = slider_set_value_Inr[OF assms(1)]
  from r have f: "same_range s s'" "same_mode s s'" by simp_all
  have a: "round_value (clipped v s) s' = Inr (impl_value s')"
    using r by (simp add: round_value_cong[OF f])
  have b: "1 \<le> int_max s'" using f assms(2) by (simp add: same_mode_def)
  have c: "impl_min s' \<le> clipped v s" and d: "clipped v s \<le> impl_max s'"
    using clipped_in_range[OF assms(3)] f by (simp_all add: same_range_def)
  show ?thesis by (rule slider_inv_rounded[OF a b c d])
qed

lemma slider_set_min_inv:
  assumes "slider_set_min m s = Inr s'" and "1 \<le> int_max s"
  shows "slider_inv s'"
proof -
  note r = slider_set_min_Inr[OF assms(1)]
  define x where "x = max m (min (impl_max s') (impl_value s))"
  have a: "round_value x s' = Inr (impl_value s')" using r unfolding x_def by blast
  have b: "1 \<le> int_max s'" using r assms(2) by (simp add: same_mode_def)
  have mm: "impl_min s' = m" "m \<le> impl_max s'" using r by (auto split: if_splits)
  have c: "impl_min s' \<le> x" and d: "x \<le> impl_max s'"
    using mm by (simp_all add: x_def)
  show ?thesis by (rule slider_inv_rounded[OF a b c d])
qed

lemma slider_set_max_inv:
  assumes "slider_set_max m s = Inr s'" and "1 \<le> int_max s"
  shows "slider_inv s'"
proof -
  note r = slider_set_max_Inr[OF assms(1)]
  define x where "x = max (impl_min s') (min m (impl_value s))"
  have a: "round_value x s' = Inr (impl_value s')" using r unfolding x_def by blast
  have b: "1 \<le> int_max s'" using r assms(2) by (simp add: same_mode_def)
  have mm: "impl_max s' = m" "impl_min s' \<le> m" using r by (auto split: if_splits)
  have c: "impl_min s' \<le> x" and d: "x \<le> impl_max s'"
    using mm by (simp_all add: x_def)
  show ?thesis by (rule slider_inv_rounded[OF a b c d])
qed

lemma slider_set_tick_count_inv:
  assumes "slider_set_tick_count tc s = Inr s'" and "impl_min s \<le> impl_max s"
  shows "slider_inv s'"
proof -
  note r = slider_set_tick_count_Inr[OF assms(1)]
  have a: "round_value (clipped (impl_value s) s) s' = Inr (impl_value s')" using r by simp
  have b: "1 \<le> int_max s'"
    using r by (auto simp: valid_tick_count_def CONTINUOUS_MAX_def split: option.splits)
  have c: "impl_min s' \<le> clipped (impl_value s) s" and d: "clipped (impl_value s) s \<le> impl_max s'"
    using clipped_in_range[OF assms(2)] r by (simp_all add: same_range_def)
  show ?thesis by (rule slider_inv_rounded[OF a b c d])
qed


lemma user_move_Inr:
  assumes "slider_inv s" and "0 \<le> p" and "p \<le> int_max s"
  shows "\<exists>s'. user_move p s = Inr s' \<and> slider_inv s' \<and> int_value s' = p \<and>
              same_range s s' \<and> same_mode s s' \<and>
              impl_value s' = impl_min s + of_int p / of_int (int_max s) * (impl_max s - impl_min s) \<and>
              calls s' = notified s \<and> on_change s' = on_change s"
proof -
  define s' where "s' = fire (s\<lparr>int_value := p,
      impl_value := impl_min s + of_int p / of_int (int_max s) * (impl_max s - impl_min s)\<rparr>)"
  have m: "1 \<le> int_max s" and r: "impl_min s \<le> impl_max s"
    using assms(1) by (simp_all add: slider_inv_def)
  have u: "user_move p s = Inr s'"
    using m by (simp add: user_move_def impl_on_change_def s'_def Let_def)
  have fr: "same_range s s'" "same_mode s s'" "int_value s' = p"
    "impl_value s' = impl_min s + of_int p / of_int (int_max s) * (impl_max s - impl_min s)"
    "calls s' = notified s" "on_change s' = on_change s"
    by (simp_all add: s'_def fire_def same_range_def same_mode_def notified_def split: option.splits)
  have e: "impl_value s' = impl_min s' + of_int p * ((impl_max s' - impl_min s') / of_int (int_max s'))"
    using fr by (simp add: same_range_def same_mode_def)
  have m': "1 \<le> int_max s'" and r': "impl_min s' \<le> impl_max s'" and p': "p \<le> int_max s'"
    using fr m r assms(3) by (simp_all add: same_range_def same_mode_def)
  from tick_in_range[OF m' r' assms(2) p'] e have "slider_inv s'"
    unfolding slider_inv_def on_tick_def using m' assms(2) p' by auto
  with u fr show ?thesis by simp
qed

lemma slider_set_tick_value_shape:
  "slider_set_tick_value tv s = Inr s \<or> (\<exists>e. slider_set_tick_value tv s = Inl (e, s)) \<or>
   (\<exists>v. slider_set_tick_value tv s = slider_set_value v s)"
  unfolding slider_set_tick_value_def
  by (auto split: option.splits sum.splits)

lemma slider_inv_handlers [simp]:
  "slider_inv (s\<lparr>on_change := h\<rparr>) = slider_inv s"
  "slider_inv (s\<lparr>on_press := h\<rparr>) = slider_inv s"
  "slider_inv (s\<lparr>on_release := h\<rparr>) = slider_inv s"
  "slider_inv (s\<lparr>enabled := b\<rparr>) = slider_inv s"
  by (simp_all add: slider_inv_def on_tick_def)

lemma slider_set_value_keeps:
  assumes "slider_inv s"
  shows "slider_inv (state_of (slider_set_value v s))"
proof -
  from assms have m: "1 \<le> int_max s" "int_max s \<noteq> 0" and r: "impl_min s \<le> impl_max s"
    by (auto simp: slider_inv_def)
  from slider_set_value_ok[OF m(2)] obtain s' where s': "slider_set_value v s = Inr s'" by blast
  with slider_set_value_inv[OF s' m(1) r] show ?thesis by simp
qed

lemma slider_do_keeps:
  assumes "slider_inv s"
  shows "slider_inv (state_of (slider_do c s))"
proof -
  from assms have m: "1 \<le> int_max s" "int_max s \<noteq> 0" and r: "impl_min s \<le> impl_max s"
    by (auto simp: slider_inv_def)
  show ?thesis
  proof (cases c)
    case (Set_value v)
    then show ?thesis using slider_set_value_keeps[OF assms] by simp
  next
    case (Set_min v)
    from slider_set_min_ok[OF m(2)] obtain s' where s': "slider_set_min v s = Inr s'" by blast
    with slider_set_min_inv[OF s' m(1)] Set_min show ?thesis by simp
  next
    case (Set_max v)
    from slider_set_max_ok[OF m(2)] obtain s' where s': "slider_set_max v s = Inr s'" by blast
    with slider_set_max_inv[OF s' m(1)] Set_max show ?thesis by simp
  next
    case (Set_tick_count tc)
    show ?thesis
    proof (cases "valid_tick_count tc")
      case True
      from slider_set_tick_count_ok[OF True] obtain s' where s': "slider_set_tick_count tc s = Inr s'"
        by blast
      with slider_set_tick_count_inv[OF s' r] Set_tick_count show ?thesis by simp
    next
      case False
      then show ?thesis
        using Set_tick_count assms by (simp add: slider_set_tick_count_invalid)
    qed
  next
    case (Set_tick_value tv)
    then show ?thesis
      using slider_set_tick_value_shape[of tv s] slider_set_value_keeps[OF assms] assms
      by auto
  qed (use assms in simp_all)
qed

lemma Slider_init_inv:
  assumes "Slider_init v mn mx tc h hp hr en s0 = Inr s"
  shows "slider_inv s"
proof -
  from assms obtain s1 s2 s3 s4 where
        "slider_set_min mn (s0\<lparr>on_change := None\<rparr>) = Inr s1"
    and s2: "slider_set_max mx s1 = Inr s2"
    and s3: "slider_set_tick_count tc s2 = Inr s3"
    and s4: "slider_set_value (case v of None \<Rightarrow> (mn + mx) / 2 | Some x \<Rightarrow> x) s3 = Inr s4"
    and s: "s = s4\<lparr>on_change := h, on_press := hp, on_release := hr, enabled := en\<rparr>"
    unfolding Slider_init_def thn_Inr by auto
  have "impl_min s2 \<le> impl_max s2"
    using slider_set_max_Inr[OF s2] by (auto split: if_splits)
  then have "slider_inv s3" by (rule slider_set_tick_count_inv[OF s3])
  then have "1 \<le> int_max s3" "impl_min s3 \<le> impl_max s3" by (auto simp: slider_inv_def)
  then have "slider_inv s4" by (rule slider_set_value_inv[OF s4])
  then show ?thesis by (simp add: s)
qed

lemma slider_reachable_inv: "slider_reachable s \<Longrightarrow> slider_inv s"
proof (induction rule: slider_reachable.induct)
  case (created v mn mx tc h hp hr en pos nmax vis nf s)
  then show ?case by (rule Slider_init_inv)
next
  case (called s c)
  then show ?case by (simp add: slider_do_keeps)
next
  case (moved s p)
  from user_move_Inr[OF moved.IH moved.hyps(2,3)] show ?case by auto
qed

section \<open>The setters of a DateInput\<close>

lemma date_native_event_fields:
  "date_value (date_native_event c t s) = date_value s"
  "min_date (date_native_event c t s) = min_date s"
  "max_date (date_native_event c t s) = max_date s"
  "date_quiet s (date_native_event c t s)"
  by (simp_all add: date_native_event_def date_fire_def date_quiet_def split: option.splits)

lemma date_quiet_refl [simp]: "date_quiet s s"
  by (simp add: date_quiet_def)

lemma date_quiet_trans: "date_quiet s s1 \<Longrightarrow> date_quiet s1 s2 \<Longrightarrow> date_quiet s s2"
  by (auto simp: date_quiet_def)

lemma backend_set_value:
  "date_value (set_value v s) = v" "min_date (set_value v s) = min_date s"
  "max_date (set_value v s) = max_date s" "date_quiet s (set_value v s)"
  using date_native_event_fields[where c="SetValue v" and t=s and s="s\<lparr>date_value := v\<rparr>"]
  by (simp_all add: set_value_def date_quiet_def)

lemma backend_set_min_date:
  "date_value (set_min_date v s) = date_value s" "min_date (set_min_date v s) = v"
  "max_date (set_min_date v s) = max_date s" "date_quiet s (set_min_date v s)"
  using date_native_event_fields[where c="SetMinDate v" and t=s and s="s\<lparr>min_date := v\<rparr>"]
  by (simp_all add: set_min_date_def date_quiet_def)

lemma backend_set_max_date:
  "date_value (set_max_date v s) = date_value s" "min_date (set_max_date v s) = min_date s"
  "max_date (set_max_date v s) = v" "date_quiet s (set_max_date v s)"
  using date_native_event_fields[where c="SetMaxDate v" and t=s and s="s\<lparr>max_date := v\<rparr>"]
  by (simp_all add: set_max_date_def date_quiet_def)

lemma date_set_value_Inr:
  assumes "date_set_value v s = Inr s'"
  shows "\<exists>d. convert_date (today s) v False = Inr d \<and> date_value s' = date_clipped d s \<and>
             min_date s' = min_date s \<and> max_date s' = max_date s \<and> date_quiet s s'"
proof (cases "convert_date (today s) v False")
  case (Inl e)
  then show ?thesis using assms by (simp add: date_set_value_def)
next
  case (Inr d)
  then have "s' = set_value (date_clipped d s) s"
    using assms by (simp add: date_set_value_def date_clipped_def Let_def)
  then show ?thesis using Inr by (simp add: backend_set_value)
qed

lemma date_set_value_Inl: "date_set_value v s = Inl (e, s') \<Longrightarrow> s' = s"
  unfolding date_set_value_def Let_def by (auto split: sum.splits)

lemma date_set_value_date:
  "\<exists>s'. date_set_value (PyDate d) s = Inr s' \<and> date_value s' = date_clipped d s \<and>
        min_date s' = min_date s \<and> max_date s' = max_date s \<and> date_quiet s s'"
  unfolding date_set_value_def Let_def
  by (simp add: convert_date_def backend_set_value date_clipped_def)

lemma date_set_min_Inl: "date_set_min v s = Inl (e, s') \<longleftrightarrow> min_arg v s = Inl e \<and> s' = s"
proof (cases "min_arg v s")
  case (Inl a)
  then show ?thesis by (auto simp: date_set_min_def min_arg_def)
next
  case (Inr m)
  define s2 where "s2 = set_min_date m (if max_date s < m then set_max_date m s else s)"
  obtain s3 where "date_set_value (PyDate m) s2 = Inr s3"
    using date_set_value_date[of m s2] by blast
  then show ?thesis
    using Inr by (auto simp: date_set_min_def min_arg_def Let_def s2_def)
qed

lemma date_set_max_Inl: "date_set_max v s = Inl (e, s') \<longleftrightarrow> max_arg v s = Inl e \<and> s' = s"
proof (cases "max_arg v s")
  case (Inl a)
  then show ?thesis by (auto simp: date_set_max_def max_arg_def)
next
  case (Inr m)
  define s2 where "s2 = set_max_date m (if min_date s > m then set_min_date m s else s)"
  obtain s3 where "date_set_value (PyDate m) s2 = Inr s3"
    using date_set_value_date[of m s2] by blast
  then show ?thesis
    using Inr by (auto simp: date_set_max_def max_arg_def Let_def s2_def)
qed

lemma date_set_min_Inr:
  assumes "date_set_min v s = Inr s'"
  shows "min_arg v s = Inr (min_date s') \<and>
         max_date s' = (if max_date s < min_date s' then min_date s' else max_date s) \<and>
         date_value s' = (if date_value s < min_date s' then min_date s' else date_value s) \<and>
         date_quiet s s'"
proof -
  from assms obtain m where m: "min_arg v s = Inr m"
    by (cases "min_arg v s") (auto simp: date_set_min_def min_arg_def)
  define s1 where "s1 = (if max_date s < m then set_max_date m s else s)"
  define s2 where "s2 = set_min_date m s1"
  have f1: "date_value s1 = date_value s" "min_date s1 = min_date s"
    "max_date s1 = (if max_date s < m then m else max_date s)" "date_quiet s s1"
    by (simp_all add: s1_def backend_set_max_date)
  have f2: "date_value s2 = date_value s" "min_date s2 = m"
    "max_date s2 = (if max_date s < m then m else max_date s)" "date_quiet s s2"
    using f1 date_quiet_trans[OF f1(4) backend_set_min_date(4)[where v=m and s=s1]]
    by (simp_all add: s2_def backend_set_min_date)
  have e: "date_set_min v s = (if date_value s2 < m then date_set_value (PyDate m) s2 else Inr s2)"
    using m by (simp add: date_set_min_def min_arg_def Let_def s1_def s2_def)
  show ?thesis
  proof (cases "date_value s2 < m")
    case False
    then have "s' = s2" using e assms by simp
    then show ?thesis using f2 False m by simp
  next
    case True
    obtain s3 where s3: "date_set_value (PyDate m) s2 = Inr s3"
      "date_value s3 = date_clipped m s2" "min_date s3 = min_date s2" "max_date s3 = max_date s2"
      "date_quiet s2 s3"
      using date_set_value_date[of m s2] by blast
    have "s' = s3" using e assms True s3 by simp
    moreover have "date_clipped m s2 = m" using f2 by (simp add: date_clipped_def)
    ultimately show ?thesis
      using f2 True m s3 date_quiet_trans[OF f2(4) s3(5)] by simp
  qed
qed

lemma date_set_max_Inr:
  assumes "date_set_max v s = Inr s'"
  shows "max_arg v s = Inr (max_date s') \<and>
         min_date s' = (if min_date s > max_date s' then max_date s' else min_date s) \<and>
         date_value s' = (if date_value s > max_date s' then max_date s' else date_value s) \<and>
         date_quiet s s'"
proof -
  from assms obtain m where m: "max_arg v s = Inr m"
    by (cases "max_arg v s") (auto simp: date_set_max_def max_arg_def)
  define s1 where "s1 = (if min_date s > m then set_min_date m s else s)"
  define s2 where "s2 = set_max_date m s1"
  have f1: "date_value s1 = date_value s" "max_date s1 = max_date s"
    "min_date s1 = (if min_date s > m then m else min_date s)" "date_quiet s s1"
    by (simp_all add: s1_def backend_set_min_date)
  have f2: "date_value s2 = date_value s" "max_date s2 = m"
    "min_date s2 = (if min_date s > m then m else min_date s)" "date_quiet s s2"
    using f1 date_quiet_trans[OF f1(4) backend_set_max_date(4)[where v=m and s=s1]]
    by (simp_all add: s2_def backend_set_max_date)
  have e: "date_set_max v s = (if date_value s2 > m then date_set_value (PyDate m) s2 else Inr s2)"
    using m by (simp add: date_set_max_def max_arg_def Let_def s1_def s2_def)
  show ?thesis
  proof (cases "date_value s2 > m")
    case False
    then have "s' = s2" using e assms by simp
    then show ?thesis using f2 False m by simp
  next
    case True
    obtain s3 where s3: "date_set_value (PyDate m) s2 = Inr s3"
      "date_value s3 = date_clipped m s2" "min_date s3 = min_date s2" "max_date s3 = max_date s2"
      "date_quiet s2 s3"
      using date_set_value_date[of m s2] by blast
    have "s' = s3" using e assms True s3 by simp
    moreover have "date_clipped m s2 = m" using f2 by (auto simp: date_clipped_def)
    ultimately show ?thesis
      using f2 True m s3 date_quiet_trans[OF f2(4) s3(5)] by simp
  qed
qed

section \<open>The invariant of a DateInput is kept\<close>

lemma dateinput_inv_handler [simp]:
  "dateinput_inv (s\<lparr>date_on_change := h\<rparr>) = dateinput_inv s"
  by (simp add: dateinput_inv_def)





lemma state_of_cases:
  obtains (raised) e s' where "r = Inl (e, s')" "state_of r = s'"
  | (returned) s' where "r = Inr s'" "state_of r = s'"
  by (cases r) auto




section \<open>Nothing is announced while no handler is installed\<close>

lemma silent_Inr [simp]: "silent s (Inr s') \<longleftrightarrow> on_change s' = None \<and> calls s' = calls s"
  by (simp add: silent_def)

lemma silent_Inl [simp]: "silent s (Inl (e, s')) \<longleftrightarrow> on_change s' = None \<and> calls s' = calls s"
  by (simp add: silent_def)

lemma silent_thn:
  assumes "silent s r" and "\<And>s1. r = Inr s1 \<Longrightarrow> silent s1 (f s1)"
  shows "silent s (thn r f)"
proof (cases r)
  case (Inl x)
  then show ?thesis using assms(1) by simp
next
  case (Inr s1)
  with assms have "silent s (Inr s1)" "silent s1 (f s1)" by simp_all
  then show ?thesis using Inr by (simp add: silent_def)
qed

lemma silent_impl_on_change: "on_change s = None \<Longrightarrow> silent s (impl_on_change s)"
  by (simp add: impl_on_change_def Let_def fire_def)

lemma silent_native_event:
  "on_change s = None \<Longrightarrow> silent s (native_event c t s)"
  by (simp add: native_event_def silent_impl_on_change)

lemma silent_impl_set_value:
  assumes "on_change s = None"
  shows "silent s (impl_set_value v s)"
proof -
  define t where "t = s\<lparr>int_value := int_position v s\<rparr>"
  have "silent t (native_event (SetIntValue (int_position v s)) s t)"
    using assms by (intro silent_native_event) (simp add: t_def)
  then have a: "silent s (native_event (SetIntValue (int_position v s)) s t)"
    by (simp add: silent_def t_def)
  have "silent s (thn (native_event (SetIntValue (int_position v s)) s t)
                      (\<lambda>s1. Inr (s1\<lparr>impl_value := v\<rparr>)))"
  proof (rule silent_thn[OF a])
    fix s1 assume "native_event (SetIntValue (int_position v s)) s t = Inr s1"
    with a have "on_change s1 = None" by simp
    then show "silent s1 (Inr (s1\<lparr>impl_value := v\<rparr>))" by simp
  qed
  then show ?thesis by (simp add: impl_set_value_def set_int_value_def t_def)
qed

lemma silent_set_value_raw: "on_change s = None \<Longrightarrow> silent s (set_value_raw v s)"
  unfolding set_value_raw_def
  by (cases "round_value v s") (simp_all add: silent_impl_set_value)

lemma silent_impl_set_tick_count:
  assumes "on_change s = None"
  shows "silent s (impl_set_tick_count tc s)"
proof -
  define m where "m = (case tc of None \<Rightarrow> CONTINUOUS_MAX | Some n \<Rightarrow> n - 1)"
  define s0 where "s0 = s\<lparr>discrete := (tc \<noteq> None), int_max := m\<rparr>"
  have eq: "impl_set_tick_count tc s =
      thn (native_event (SetIntMax m) (s\<lparr>discrete := (tc \<noteq> None)\<rparr>) s0)
          (\<lambda>s1. native_event (SetTicksVisible (discrete s1)) s1 (s1\<lparr>ticks_visible := discrete s1\<rparr>))"
    by (simp add: impl_set_tick_count_def set_int_max_def set_ticks_visible_def m_def s0_def
             split: option.splits)
  have a: "silent s (native_event (SetIntMax m) (s\<lparr>discrete := (tc \<noteq> None)\<rparr>) s0)"
    using silent_native_event[of s0] assms by (simp add: s0_def silent_def)
  show ?thesis
    unfolding eq
  proof (rule silent_thn[OF a])
    fix s1 assume "native_event (SetIntMax m) (s\<lparr>discrete := (tc \<noteq> None)\<rparr>) s0 = Inr s1"
    with a have "on_change s1 = None" by simp
    then show "silent s1 (native_event (SetTicksVisible (discrete s1)) s1 (s1\<lparr>ticks_visible := discrete s1\<rparr>))"
      using silent_native_event[of "s1\<lparr>ticks_visible := discrete s1\<rparr>"] by (simp add: silent_def)
  qed
qed

lemma silent_programmatic_change:
  assumes "on_change s = None"
    and "\<And>s0. on_change s0 = None \<Longrightarrow> calls s0 = calls s \<Longrightarrow> silent s0 (body (impl_value s) s0)"
  shows "silent s (programmatic_change body s)"
proof -
  have b: "silent s (body (impl_value s) (s\<lparr>on_change := None\<rparr>))"
    using assms(2)[of "s\<lparr>on_change := None\<rparr>"] by (simp add: silent_def)
  show ?thesis
  proof (cases "body (impl_value s) (s\<lparr>on_change := None\<rparr>)")
    case (Inl x)
    then show ?thesis using b by (simp add: programmatic_change_def Let_def silent_def)
  next
    case (Inr s1)
    then show ?thesis
      using b assms(1) by (simp add: programmatic_change_def Let_def fire_def)
  qed
qed

lemma silent_slider_set_value: "on_change s = None \<Longrightarrow> silent s (slider_set_value v s)"
  unfolding slider_set_value_def Let_def
  by (rule silent_programmatic_change) (simp_all add: silent_set_value_raw)

lemma silent_slider_set_min: "on_change s = None \<Longrightarrow> silent s (slider_set_min v s)"
  unfolding slider_set_min_def
proof (rule silent_programmatic_change)
  fix s0 :: slider assume h: "on_change s0 = None" and "calls s0 = calls s"
  show "silent s0 (let mn = v; mx = impl_max s0 in
       thn (if mx < mn then impl_set_max mn s0 else Inr s0) (\<lambda>s1.
       thn (impl_set_min mn s1) (\<lambda>s2.
       set_value_raw (max mn (min (if mx < mn then mn else mx) (impl_value s))) s2)))"
  proof (cases "impl_max s0 < v")
    case True
    have "silent (s0\<lparr>impl_max := v, impl_min := v\<rparr>)
            (set_value_raw (max v (min v (impl_value s))) (s0\<lparr>impl_max := v, impl_min := v\<rparr>))"
      using h by (intro silent_set_value_raw) simp
    then show ?thesis
      using True by (simp add: Let_def impl_set_max_def impl_set_min_def silent_def)
  next
    case False
    have "silent (s0\<lparr>impl_min := v\<rparr>)
            (set_value_raw (max v (min (impl_max s0) (impl_value s))) (s0\<lparr>impl_min := v\<rparr>))"
      using h by (intro silent_set_value_raw) simp
    then show ?thesis
      using False by (simp add: Let_def impl_set_max_def impl_set_min_def silent_def)
  qed
qed

lemma silent_slider_set_max: "on_change s = None \<Longrightarrow> silent s (slider_set_max v s)"
  unfolding slider_set_max_def
proof (rule silent_programmatic_change)
  fix s0 :: slider assume h: "on_change s0 = None" and "calls s0 = calls s"
  show "silent s0 (let mn = impl_min s0; mx = v in
       thn (if mn > mx then impl_set_min mx s0 else Inr s0) (\<lambda>s1.
       thn (impl_set_max mx s1) (\<lambda>s2.
       set_value_raw (max (if mn > mx then mx else mn) (min mx (impl_value s))) s2)))"
  proof (cases "impl_min s0 > v")
    case True
    have "silent (s0\<lparr>impl_min := v, impl_max := v\<rparr>)
            (set_value_raw (max v (min v (impl_value s))) (s0\<lparr>impl_min := v, impl_max := v\<rparr>))"
      using h by (intro silent_set_value_raw) simp
    then show ?thesis
      using True by (simp add: Let_def impl_set_max_def impl_set_min_def silent_def)
  next
    case False
    have "silent (s0\<lparr>impl_max := v\<rparr>)
            (set_value_raw (max (impl_min s0) (min v (impl_value s))) (s0\<lparr>impl_max := v\<rparr>))"
      using h by (intro silent_set_value_raw) simp
    then show ?thesis
      using False by (simp add: Let_def impl_set_max_def impl_set_min_def silent_def)
  qed
qed

lemma silent_slider_set_tick_count:
  assumes "on_change s = None"
  shows "silent s (slider_set_tick_count tc s)"
proof (cases "valid_tick_count tc")
  case False
  then show ?thesis using assms by (simp add: slider_set_tick_count_invalid)
next
  case True
  then have e: "slider_set_tick_count tc s = programmatic_change (\<lambda>old_value s0.
             thn (impl_set_tick_count tc s0) (slider_set_value old_value)) s"
    by (auto simp: slider_set_tick_count_def valid_tick_count_def split: option.splits)
  show ?thesis
    unfolding e
  proof (rule silent_programmatic_change[OF assms])
    fix s0 :: slider assume h: "on_change s0 = None"
    show "silent s0 (thn (impl_set_tick_count tc s0) (slider_set_value (impl_value s)))"
    proof (rule silent_thn[OF silent_impl_set_tick_count[OF h]])
      fix s1 assume "impl_set_tick_count tc s0 = Inr s1"
      with silent_impl_set_tick_count[OF h, of tc] have "on_change s1 = None" by simp
      then show "silent s1 (slider_set_value (impl_value s) s1)" by (rule silent_slider_set_value)
    qed
  qed
qed

lemma Slider_init_silent:
  "calls (state_of (Slider_init v mn mx tc h hp hr en s0)) = calls s0"
proof -
  define t where "t = s0\<lparr>on_change := None\<rparr>"
  have t: "on_change t = None" "calls t = calls s0" by (simp_all add: t_def)
  define r where "r = thn (slider_set_min mn t) (\<lambda>s1.
     thn (slider_set_max mx s1) (\<lambda>s2.
     thn (slider_set_tick_count tc s2) (\<lambda>s3.
     slider_set_value (case v of None \<Rightarrow> (mn + mx) / 2 | Some x \<Rightarrow> x) s3)))"
  have "silent t r"
    unfolding r_def
  proof (intro silent_thn)
    show "silent t (slider_set_min mn t)" by (rule silent_slider_set_min[OF t(1)])
  next
    fix s1 assume "slider_set_min mn t = Inr s1"
    with silent_slider_set_min[OF t(1), of mn] show "silent s1 (slider_set_max mx s1)"
      by (intro silent_slider_set_max) simp
  next
    fix s1 s2 assume "slider_set_min mn t = Inr s1" "slider_set_max mx s1 = Inr s2"
    with silent_slider_set_min[OF t(1), of mn] silent_slider_set_max[of s1 mx]
    show "silent s2 (slider_set_tick_count tc s2)"
      by (intro silent_slider_set_tick_count) simp
  next
    fix s1 s2 s3 assume "slider_set_min mn t = Inr s1" "slider_set_max mx s1 = Inr s2"
      "slider_set_tick_count tc s2 = Inr s3"
    with silent_slider_set_min[OF t(1), of mn] silent_slider_set_max[of s1 mx]
      silent_slider_set_tick_count[of s2 tc]
    show "silent s3 (slider_set_value (case v of None \<Rightarrow> (mn + mx) / 2 | Some x \<Rightarrow> x) s3)"
      by (intro silent_slider_set_value) simp
  qed
  then have c: "calls (state_of r) = calls s0" using t by (simp add: silent_def)
  have "Slider_init v mn mx tc h hp hr en s0 =
        thn r (\<lambda>s4. Inr (s4\<lparr>on_change := h, on_press := hp, on_release := hr, enabled := en\<rparr>))"
    by (simp add: Slider_init_def r_def t_def thn_def split: sum.splits)
  then show ?thesis using c by (cases r) auto
qed

lemma DateInput_init_silent:
  "date_calls (state_of (DateInput_init v mn mx h s0)) = date_calls s0"
proof -
  define t where "t = s0\<lparr>date_on_change := None\<rparr>"
  have t: "date_on_change t = None" "date_calls t = date_calls s0" by (simp_all add: t_def)
  have e: "DateInput_init v mn mx h s0 =
     thn (date_set_min mn t) (\<lambda>s1. thn (date_set_max mx s1) (\<lambda>s2.
     thn (date_set_value v s2) (\<lambda>s3. Inr (s3\<lparr>date_on_change := h\<rparr>))))"
    by (simp add: DateInput_init_def t_def)
  show ?thesis
  proof (cases "date_set_min mn t" rule: state_of_cases)
    case (raised e s')
    then show ?thesis using date_set_min_Inl[of mn t e s'] t unfolding e by simp
  next
    case s1: (returned s1)
    have q1: "date_on_change s1 = None" "date_calls s1 = date_calls s0"
      using date_set_min_Inr[OF s1(1)] t by (simp_all add: date_quiet_def)
    show ?thesis
    proof (cases "date_set_max mx s1" rule: state_of_cases)
      case (raised e s')
      then show ?thesis using date_set_max_Inl[of mx s1 e s'] q1 s1 unfolding e by simp
    next
      case s2: (returned s2)
      have q2: "date_on_change s2 = None" "date_calls s2 = date_calls s0"
        using date_set_max_Inr[OF s2(1)] q1 by (simp_all add: date_quiet_def)
      show ?thesis
      proof (cases "date_set_value v s2" rule: state_of_cases)
        case (raised e s')
        then show ?thesis using date_set_value_Inl[of v s2 e s'] q2 s1 s2 unfolding e by simp
      next
        case s3: (returned s3)
        have "date_calls s3 = date_calls s0"
          using date_set_value_Inr[OF s3(1)] q2 by (auto simp: date_quiet_def)
        then show ?thesis using s1 s2 s3 unfolding e by simp
      qed
    qed
  qed
qed

section \<open>Setters that always return\<close>

lemma date_set_min_ok:
  assumes "min_arg v s = Inr m"
  shows "\<exists>s'. date_set_min v s = Inr s' \<and> min_date s' = m \<and>
              max_date s' = (if max_date s < m then m else max_date s)"
proof (cases "date_set_min v s")
  case (Inl x)
  then show ?thesis using assms date_set_min_Inl[of v s "fst x" "snd x"] by simp
next
  case (Inr s')
  from date_set_min_Inr[OF Inr] assms have "min_date s' = m"
    "max_date s' = (if max_date s < min_date s' then min_date s' else max_date s)" by simp_all
  then show ?thesis using Inr by simp
qed

lemma date_set_max_ok:
  assumes "max_arg v s = Inr m"
  shows "\<exists>s'. date_set_max v s = Inr s' \<and> max_date s' = m \<and>
              min_date s' = (if m < min_date s then m else min_date s)"
proof (cases "date_set_max v s")
  case (Inl x)
  then show ?thesis using assms date_set_max_Inl[of v s "fst x" "snd x"] by simp
next
  case (Inr s')
  from date_set_max_Inr[OF Inr] assms have "max_date s' = m"
    "min_date s' = (if min_date s > max_date s' then max_date s' else min_date s)" by simp_all
  then show ?thesis using Inr by simp
qed

lemma slider_set_min_total:
  assumes "int_max s \<noteq> 0"
  shows "\<exists>s'. slider_set_min v s = Inr s' \<and> impl_min s' = v \<and>
              impl_max s' = (if impl_max s < v then v else impl_max s)"
proof -
  from slider_set_min_ok[OF assms] obtain s' where s': "slider_set_min v s = Inr s'" by blast
  from slider_set_min_Inr[OF s'] show ?thesis using s' by blast
qed

lemma slider_set_max_total:
  assumes "int_max s \<noteq> 0"
  shows "\<exists>s'. slider_set_max v s = Inr s' \<and> impl_max s' = v \<and>
              impl_min s' = (if v < impl_min s then v else impl_min s)"
proof -
  from slider_set_max_ok[OF assms] obtain s' where s': "slider_set_max v s = Inr s'" by blast
  from slider_set_max_Inr[OF s'] show ?thesis using s' by blast
qed

section \<open>Ticks\<close>



lemma tick_value_on_tick:
  assumes "slider_inv s" and "discrete s" and "impl_min s \<noteq> impl_max s"
  shows "\<exists>t. tick_value s = Inr (Some t) \<and> 1 \<le> t \<and> t \<le> int_max s + 1 \<and>
             impl_value s = impl_min s + of_int (t - 1) * ((impl_max s - impl_min s) / of_int (int_max s))"
proof -
  define step where "step = (impl_max s - impl_min s) / of_int (int_max s)"
  from assms have m: "1 \<le> int_max s" "int_max s \<noteq> 0" by (auto simp: slider_inv_def)
  have step: "step \<noteq> 0" using assms(3) m by (simp add: step_def)
  from assms(1,2) obtain k where k: "0 \<le> k" "k \<le> int_max s"
    and e: "impl_value s = impl_min s + of_int k * step"
    unfolding slider_inv_def on_tick_def step_def by blast
  have "(impl_value s - impl_min s) / step = of_int k" using e step by simp
  then have "py_round ((impl_value s - impl_min s) / step) = k" by (simp add: py_round_of_int)
  then have "tick_value s = Inr (Some (k + 1))"
    using assms(2,3) m by (simp add: tick_value_def tick_step_ok get_tick_count_def step_def)
  then show ?thesis using k e by (intro exI[of _ "k + 1"]) (simp add: step_def)
qed


section \<open>The example of the DateInput\<close>




section \<open>Running the model on concrete widgets\<close>

lemmas slider_defs =
  Slider_init_def slider_set_min_def slider_set_max_def slider_set_tick_count_def
  slider_set_value_def slider_set_tick_value_def programmatic_change_def set_value_raw_def
  round_value_def tick_step_def tick_value_def get_tick_count_def impl_set_tick_count_def
  impl_set_value_def impl_set_min_def impl_set_max_def int_position_def set_int_value_def
  set_int_max_def set_ticks_visible_def native_event_def impl_on_change_def fire_def
  CONTINUOUS_MAX_def py_round_def Let_def user_move_def

lemmas date_defs =
  DateInput_init_def date_set_min_def date_set_max_def date_set_value_def convert_date_def
  fromisoformat_def digit_of_def days_in_month_def is_leap_def set_value_def set_min_date_def
  set_max_date_def date_native_event_def date_fire_def MIN_DATE_def MAX_DATE_def Let_def


lemma demo_slider_created:
  "Slider_init None 0 10 (Some 3) (Some 1) None None True demo_native = Inr demo_slider"
  by (simp add: slider_defs demo_native_def fresh_slider_def demo_slider_def)


lemma demo_slider_reachable: "slider_reachable demo_slider"
  using demo_slider_created unfolding demo_native_def by (rule slider_reachable.created)



lemma demo_dragged:
  "slider_do (Set_min 20) demo_slider =
     Inr (demo_slider\<lparr>impl_value := 20, impl_min := 20, impl_max := 20, int_value := 0, calls := [1]\<rparr>)"
  by (simp add: slider_defs demo_slider_def)

lemma demo_date_dragged:
  "dateinput_do (Set_date_max (PyStr ''1066-10-14'')) demo_dateinput = Inl (ValueError, demo_dateinput)"
  "dateinput_do (Set_date_max (PyStr ''1866-10-14'')) demo_dateinput =
     Inr (demo_dateinput\<lparr>date_value := (1866, 10, 14), min_date := (1866, 10, 14),
           max_date := (1866, 10, 14), date_calls := [1, 1, 1]\<rparr>)"
  by (simp_all add: date_defs demo_dateinput_def)

lemma demo_refined:
  "slider_do (Set_tick_count (Some 5)) demo_slider = Inr (demo_slider\<lparr>int_value := 2, int_max := 4\<rparr>)"
  by (simp add: slider_defs demo_slider_def)

lemma demo_set:
  "impl_set_value 7 demo_slider = Inr (demo_slider\<lparr>impl_value := 7, calls := [1]\<rparr>)"
  "slider_set_value 9 demo_slider = Inr (demo_slider\<lparr>impl_value := 10, int_value := 2, calls := [1]\<rparr>)"
  "slider_set_min 20 demo_slider =
     Inr (demo_slider\<lparr>impl_value := 20, impl_min := 20, impl_max := 20, int_value := 0, calls := [1]\<rparr>)"
  "slider_set_max 4 demo_slider =
     Inr (demo_slider\<lparr>impl_value := 4, impl_max := 4, int_value := 2, calls := [1]\<rparr>)"
  "slider_set_tick_count None demo_slider =
     Inr (demo_slider\<lparr>discrete := False, int_value := 5000, int_max := 10000, ticks_visible := False\<rparr>)"
  by (simp_all add: slider_defs demo_slider_def)

lemma scale_numeral [simp]:
  "scale (numeral k) x e =
     (if x < 2 ^ 52 then scale (pred_numeral k) (2 * x) (e - 1)
      else if 2 ^ 53 \<le> x then scale (pred_numeral k) (x / 2) (e + 1)
      else (x, e))"
  by (simp add: numeral_eq_Suc)

lemma demo_eighths_reached:
  "thn (thn (slider_set_min 0 (demo_native\<lparr>on_change := None\<rparr>))
            (slider_set_max (binary64 (9 / 10))))
       (slider_set_tick_count (Some 8)) = Inr demo_eighths"
proof -
  define D :: real where "D = binary64 (9 / 10)"
  have D: "0 < D" by (simp add: D_def binary64_def py_round_def)
  then have "\<not> D < 0" "D \<noteq> 0" "0 \<noteq> D" "\<not> D < 1 \<or> D < 1" by auto
  with D show ?thesis
    unfolding demo_eighths_def D_def[symmetric]
    by (simp add: slider_defs demo_native_def fresh_slider_def)
qed

section \<open>The claims\<close>

text \<open>
  C7. Setting \<open>DateInput.min\<close> or \<open>DateInput.max\<close> to a date outside the supported window
  [1800-01-01, 8999-12-31] raises a \<open>ValueError\<close>, and the failed call leaves the whole
  widget (so its min, max and value) as it was: the range check comes before any call
  of the backend. The date may be given as a date, a datetime or an ISO string.
\<close>

theorem date_range_error_leaves_state:
  assumes "v \<noteq> PyNone" and "convert_date (today s) v False = Inr d"
    and "d < MIN_DATE \<or> MAX_DATE < d"
  shows "date_set_min v s = Inl (ValueError, s) \<and> date_set_max v s = Inl (ValueError, s)"
proof -
  have "convert_date (today s) v True = Inl ValueError"
    using assms(2,3) by (auto simp: convert_date_def split: sum.splits pyobj.splits)
  then show ?thesis
    using assms(1) by (simp add: date_set_min_def date_set_max_def)
qed

theorem date_range_error_leaves_state_witness:
  "date_set_min (PyStr ''9000-01-01'') demo_backend = Inl (ValueError, demo_backend) \<and>
   date_set_max (PyDate (1799, 12, 31)) demo_backend = Inl (ValueError, demo_backend)"
proof -
  have a: "convert_date (today demo_backend) (PyStr ''9000-01-01'') False = Inr (9000, 1, 1)"
    by (simp add: convert_date_def fromisoformat_def digit_of_def days_in_month_def)
  have b: "convert_date (today demo_backend) (PyDate (1799, 12, 31)) False = Inr (1799, 12, 31)"
    by (simp add: convert_date_def)
  have "date_set_min (PyStr ''9000-01-01'') demo_backend = Inl (ValueError, demo_backend)"
    using date_range_error_leaves_state[OF _ a] by (simp add: MAX_DATE_def)
  moreover have "date_set_max (PyDate (1799, 12, 31)) demo_backend = Inl (ValueError, demo_backend)"
    using date_range_error_leaves_state[OF _ b] by (simp add: MIN_DATE_def)
  ultimately show ?thesis by simp
qed

text \<open>
  C10. On a discrete Slider whose min equals its max, the getters of \<open>tick_step\<close> and
  \<open>tick_value\<close> both return \<open>None\<close>, and assigning anything to \<open>tick_value\<close>, an integer
  or \<open>None\<close>, raises a \<open>ValueError\<close> (and changes nothing).
\<close>

theorem tick_accessors_on_empty_range:
  assumes "discrete s" and "impl_min s = impl_max s"
  shows "tick_step s = Inr None \<and> tick_value s = Inr None \<and>
         slider_set_tick_value tv s = Inl (ValueError, s)"
  using assms
  by (simp add: tick_step_def tick_value_def slider_set_tick_value_def get_tick_count_def
           split: option.splits)

theorem tick_accessors_on_empty_range_witness:
  "discrete demo_point \<and> impl_min demo_point = impl_max demo_point \<and>
   tick_step demo_point = Inr None \<and> tick_value demo_point = Inr None \<and>
   slider_set_tick_value (Some 2) demo_point = Inl (ValueError, demo_point) \<and>
   slider_set_tick_value None demo_point = Inl (ValueError, demo_point)"
proof -
  have d: "discrete demo_point" and e: "impl_min demo_point = impl_max demo_point"
    by (simp_all add: demo_point_def)
  show ?thesis
    using tick_accessors_on_empty_range[OF d e, of "Some 2"]
          tick_accessors_on_empty_range[OF d e, of None] d e
    by simp
qed

text \<open>
  C1 says that \<open>min \<le> value \<le> max\<close> holds after every mutation. For a DateInput it
  does (lemma \<open>dateinput_reachable_inv\<close>), and for a Slider it does when the arithmetic is
  exact (lemma \<open>slider_reachable_inv\<close>). In the arithmetic of the program it fails for
  \<open>Slider(min=0.0, max=0.9, tick_count=8, value=0.9)\<close>: the setter clips 0.9 to the
  max and then rounds it to a tick; the tick step is \<open>0.9 / 7\<close> rounded, the quotient
  \<open>0.9 / step\<close> rounds to the integer 7, and \<open>0.0 + 7 * step\<close> is
  \<open>4053239664633447 / 2^52\<close> (0.9000000000000001), one unit in the last place above
  the max \<open>8106479329266893 / 2^53\<close> (0.9). The value is clipped before it is rounded
  and not after.
\<close>

theorem rounded_tick_exceeds_max:
  "clipped (binary64 (9 / 10)) demo_eighths = impl_max demo_eighths \<and>
   impl_max demo_eighths = 8106479329266893 / 2 ^ 53 \<and>
   tick_step_binary64 demo_eighths = Inr (Some (4632273902438225 / 2 ^ 55)) \<and>
   round_value_binary64 (impl_max demo_eighths) demo_eighths = Inr (4053239664633447 / 2 ^ 52) \<and>
   impl_max demo_eighths < 4053239664633447 / 2 ^ 52"
proof -
  define D :: real where "D = 8106479329266893 / 2 ^ 53"
  define S :: real where "S = 4632273902438225 / 2 ^ 55"
  define Q :: real where "Q = 7881299347898367 / 2 ^ 50"
  define R :: real where "R = 4053239664633447 / 2 ^ 52"
  have b1: "binary64 (9 / 10) = D" by (simp add: D_def binary64_def py_round_def)
  have b2: "binary64 D = D" by (simp add: D_def binary64_def py_round_def)
  have b3: "binary64 7 = 7" by (simp add: binary64_def py_round_def)
  have b4: "binary64 (D / 7) = S" by (simp add: D_def S_def binary64_def py_round_def)
  have b5: "binary64 (D / S) = Q" by (simp add: D_def S_def Q_def binary64_def py_round_def)
  have b6: "py_round Q = 7" by (simp add: Q_def py_round_def)
  have b7: "binary64 (7 * S) = R" by (simp add: S_def R_def binary64_def py_round_def)
  have b8: "binary64 R = R" by (simp add: R_def binary64_def py_round_def)
  have nz: "0 < D" "S \<noteq> 0" "D < R" by (simp_all add: D_def S_def R_def)
  have m: "impl_max demo_eighths = D" "impl_min demo_eighths = 0"
    "get_tick_count demo_eighths = Some 8"
    by (simp_all add: demo_eighths_def b1 get_tick_count_def)
  have c: "clipped (binary64 (9 / 10)) demo_eighths = impl_max demo_eighths"
    using nz(1) by (simp add: clipped_def m b1)
  have t: "tick_step_binary64 demo_eighths = Inr (Some S)"
    using nz(1) by (simp add: tick_step_binary64_def m b2 b3 b4)
  have r: "round_value_binary64 (impl_max demo_eighths) demo_eighths = Inr R"
    using nz(2) by (simp add: round_value_binary64_def t m b2 b3 b5 b6 b7 b8)
  show ?thesis
    using c t r nz(3) unfolding m by (simp add: D_def S_def R_def)
qed

text \<open>
  C2. For every programmatic mutation of a Slider (setting value, min, max, tick_count or
  tick_value) that completes, the \<open>on_change\<close> handler installed before the call is
  still installed after it, and it has been called exactly once if the value after the
  call differs from the value before it, and not at all if the two are equal, whatever
  the native control reported during the backend calls of the mutation.
\<close>

theorem on_change_once_per_change:
  assumes "slider_do c s = Inr s'" and "programmatic c"
  shows "on_change s' = on_change s \<and>
         calls s' = (if impl_value s' \<noteq> impl_value s
                     then (case on_change s of None \<Rightarrow> calls s | Some h \<Rightarrow> h # calls s)
                     else calls s)"
proof -
  have "announced s s'"
  proof (cases c)
    case (Set_value v)
    then show ?thesis using assms(1) slider_set_value_Inr[of v s s'] by simp
  next
    case (Set_min v)
    then show ?thesis using assms(1) slider_set_min_Inr[of v s s'] by simp
  next
    case (Set_max v)
    then show ?thesis using assms(1) slider_set_max_Inr[of v s s'] by simp
  next
    case (Set_tick_count tc)
    then show ?thesis using assms(1) slider_set_tick_count_Inr[of tc s s'] by simp
  next
    case (Set_tick_value tv)
    with assms(1) have e: "slider_set_tick_value tv s = Inr s'" by simp
    from slider_set_tick_value_shape[of tv s] show ?thesis
    proof (elim disjE exE)
      assume "slider_set_tick_value tv s = Inr s"
      with e show ?thesis by (simp add: announced_def)
    next
      fix e' assume "slider_set_tick_value tv s = Inl (e', s)"
      with e show ?thesis by simp
    next
      fix v assume "slider_set_tick_value tv s = slider_set_value v s"
      with e show ?thesis using slider_set_value_Inr[of v s s'] by simp
    qed
  qed (use assms(2) in simp_all)
  then show ?thesis by (simp add: announced_def notified_def)
qed

theorem on_change_once_per_change_witness:
  "calls (state_of (slider_do (Set_min 20) demo_slider)) = [1] \<and>
   calls (state_of (slider_do (Set_tick_count (Some 5)) demo_slider)) = []"
proof -
  have p: "programmatic (Set_min 20)" "programmatic (Set_tick_count (Some 5))" by simp_all
  have "calls (state_of (slider_do (Set_min 20) demo_slider)) = [1]"
    using on_change_once_per_change[OF demo_dragged p(1)] unfolding demo_dragged
    by (simp add: demo_slider_def)
  moreover have "calls (state_of (slider_do (Set_tick_count (Some 5)) demo_slider)) = []"
    using on_change_once_per_change[OF demo_refined p(2)] unfolding demo_refined
    by (simp add: demo_slider_def)
  ultimately show ?thesis by simp
qed

text \<open>
  C8. Constructing a Slider or a DateInput never calls a user handler: for every
  combination of constructor arguments and every native widget, the log of handler
  calls after \<open>__init__\<close>, returned or raised, is the log before it.
\<close>

theorem construction_calls_no_handler:
  "calls (state_of (Slider_init v mn mx tc h hp hr en s0)) = calls s0 \<and>
   date_calls (state_of (DateInput_init x lo hi g d0)) = date_calls d0"
  by (simp add: Slider_init_silent DateInput_init_silent)

theorem construction_calls_no_handler_witness:
  "calls (state_of (Slider_init (Some 1000) 0 10 (Some 3) (Some 1) None None True demo_native)) = [] \<and>
   date_calls (state_of (DateInput_init (PyStr ''2050-01-01'') (PyStr ''1999-01-01'')
                          (PyStr ''1999-12-31'') (Some 1) demo_backend)) = []"
  using construction_calls_no_handler[of "Some 1000" 0 10 "Some 3" "Some 1" None None True demo_native
          "PyStr ''2050-01-01''" "PyStr ''1999-01-01''" "PyStr ''1999-12-31''" "Some 1" demo_backend]
  by (simp add: demo_native_def fresh_slider_def demo_backend_def)

text \<open>
  C4. Setting the min of a DateInput or of a Slider to a value strictly above the current
  max leaves the max equal to the new min, and setting the max to a value strictly below
  the current min leaves the min equal to the new max; when the new bound does not
  conflict with the other one, the other one is unchanged. For a DateInput the call
  returns whenever its argument converts to a date in the supported window; for a
  Slider it always returns.
\<close>

theorem bounds_drag_each_other:
  "(min_arg x d = Inr m \<longrightarrow>
      (\<exists>d'. date_set_min x d = Inr d' \<and> min_date d' = m \<and>
            max_date d' = (if max_date d < m then m else max_date d))) \<and>
   (max_arg x d = Inr m \<longrightarrow>
      (\<exists>d'. date_set_max x d = Inr d' \<and> max_date d' = m \<and>
            min_date d' = (if m < min_date d then m else min_date d))) \<and>
   (slider_reachable s \<longrightarrow>
      (\<exists>s'. slider_set_min v s = Inr s' \<and> impl_min s' = v \<and>
            impl_max s' = (if impl_max s < v then v else impl_max s)) \<and>
      (\<exists>s'. slider_set_max v s = Inr s' \<and> impl_max s' = v \<and>
            impl_min s' = (if v < impl_min s then v else impl_min s)))"
proof -
  have "int_max s \<noteq> 0" if "slider_reachable s"
    using slider_reachable_inv[OF that] by (auto simp: slider_inv_def)
  then show ?thesis
    using date_set_min_ok[of x d m] date_set_max_ok[of x d m]
          slider_set_min_total[of s v] slider_set_max_total[of s v]
    by blast
qed

theorem bounds_drag_each_other_witness:
  "max_date (state_of (date_set_min (PyDate (2000, 6, 1)) demo_dateinput)) = (2000, 6, 1) \<and>
   min_date (state_of (date_set_max (PyDate (2000, 6, 1)) demo_dateinput)) = (1999, 1, 1) \<and>
   impl_max (state_of (slider_set_min 20 demo_slider)) = 20 \<and>
   impl_min (state_of (slider_set_max 20 demo_slider)) = 0"
proof -
  have a: "min_arg (PyDate (2000, 6, 1)) demo_dateinput = Inr (2000, 6, 1)"
       "max_arg (PyDate (2000, 6, 1)) demo_dateinput = Inr (2000, 6, 1)"
    by (simp_all add: min_arg_def max_arg_def convert_date_def MIN_DATE_def MAX_DATE_def)
  note t = bounds_drag_each_other[of "PyDate (2000, 6, 1)" demo_dateinput "(2000, 6, 1)" demo_slider 20]
  from t a obtain d1 where d1: "date_set_min (PyDate (2000, 6, 1)) demo_dateinput = Inr d1"
    "max_date d1 = (if max_date demo_dateinput < (2000, 6, 1) then (2000, 6, 1) else max_date demo_dateinput)"
    by blast
  from t a obtain d2 where d2: "date_set_max (PyDate (2000, 6, 1)) demo_dateinput = Inr d2"
    "min_date d2 = (if (2000, 6, 1) < min_date demo_dateinput then (2000, 6, 1) else min_date demo_dateinput)"
    by blast
  from t demo_slider_reachable obtain s1 where s1: "slider_set_min 20 demo_slider = Inr s1"
    "impl_max s1 = (if impl_max demo_slider < 20 then 20 else impl_max demo_slider)"
    by blast
  from t demo_slider_reachable obtain s2 where s2: "slider_set_max 20 demo_slider = Inr s2"
    "impl_min s2 = (if 20 < impl_min demo_slider then 20 else impl_min demo_slider)"
    by blast
  show ?thesis
    unfolding d1(1) d2(1) s1(1) s2(1) state_of.simps d1(2) d2(2) s1(2) s2(2)
    by (simp add: demo_dateinput_def demo_slider_def)
qed

text \<open>
  C9, as stated, fails: \<open>IntSliderImpl.set_min\<close> (like \<open>set_max\<close> and \<open>set_tick_count\<close>)
  stores its argument and leaves the native position alone. On
  \<open>Slider(min=0, max=10, tick_count=3)\<close> at value 5 the native position is 1 of 2; after
  \<open>set_min(5)\<close> it is still 1, while the proportional mapping of 5 within [5, 10] is 0.
\<close>

theorem adapter_set_min_leaves_position:
  "int_value (state_of (impl_set_min 5 demo_slider)) = 1 \<and>
   int_position (impl_value (state_of (impl_set_min 5 demo_slider)))
     (state_of (impl_set_min 5 demo_slider)) = 0"
  by (simp add: impl_set_min_def int_position_def py_round_def demo_slider_def)

text \<open>
  C9, amended. After \<open>IntSliderImpl.set_value\<close>, the native position equals the
  proportional mapping of the cached value within [min, max] onto [0, native max]; the
  setters of \<open>Slider.value\<close>, \<open>min\<close>, \<open>max\<close> and \<open>tick_count\<close> all finish with \<open>set_value\<close>,
  so the same holds after each of them.
\<close>

theorem position_follows_value:
  "(impl_set_value v s = Inr s1 \<longrightarrow> impl_value s1 = v \<and> int_value s1 = int_position v s1) \<and>
   (slider_set_value v s = Inr s2 \<longrightarrow> int_value s2 = int_position (impl_value s2) s2) \<and>
   (slider_set_min v s = Inr s3 \<longrightarrow> int_value s3 = int_position (impl_value s3) s3) \<and>
   (slider_set_max v s = Inr s4 \<longrightarrow> int_value s4 = int_position (impl_value s4) s4) \<and>
   (slider_set_tick_count tc s = Inr s5 \<longrightarrow> int_value s5 = int_position (impl_value s5) s5)"
proof -
  have "impl_value s1 = v \<and> int_value s1 = int_position v s1" if "impl_set_value v s = Inr s1"
  proof -
    from impl_set_value_Inr[OF that] have "impl_value s1 = v" "int_value s1 = int_position v s"
      "same_range s s1" "same_mode s s1" by simp_all
    then show ?thesis by (simp add: int_position_cong[of s s1])
  qed
  then show ?thesis
    using slider_set_value_Inr[of v s s2] slider_set_min_Inr[of v s s3]
          slider_set_max_Inr[of v s s4] slider_set_tick_count_Inr[of tc s s5]
    by blast
qed

theorem position_follows_value_witness:
  "int_value (state_of (impl_set_value 7 demo_slider)) = 1 \<and>
   int_position 7 (state_of (impl_set_value 7 demo_slider)) = 1 \<and>
   int_position 10 (state_of (slider_set_value 9 demo_slider)) = 2 \<and>
   int_position 20 (state_of (slider_set_min 20 demo_slider)) = 0 \<and>
   int_position 4 (state_of (slider_set_max 4 demo_slider)) = 2 \<and>
   int_position 5 (state_of (slider_set_tick_count None demo_slider)) = 5000"
  using position_follows_value[of 7 demo_slider "demo_slider\<lparr>impl_value := 7, calls := [1]\<rparr>"]
        position_follows_value[of 9 demo_slider _
           "demo_slider\<lparr>impl_value := 10, int_value := 2, calls := [1]\<rparr>"]
        position_follows_value[of 20 demo_slider _ _
           "demo_slider\<lparr>impl_value := 20, impl_min := 20, impl_max := 20, int_value := 0, calls := [1]\<rparr>"]
        position_follows_value[of 4 demo_slider _ _ _
           "demo_slider\<lparr>impl_value := 4, impl_max := 4, int_value := 2, calls := [1]\<rparr>"]
        position_follows_value[of _ demo_slider _ _ _ _ None
           "demo_slider\<lparr>discrete := False, int_value := 5000, int_max := 10000, ticks_visible := False\<rparr>"]
  unfolding demo_set state_of.simps
  by (simp add: demo_slider_def)









end
